theory Spec2Isabelle
  imports Complex_Main
begin

section \<open>Data model\<close>

text \<open>
  The monitor keeps two tables (\<^verbatim>\<open>models.py\<close>): \<^verbatim>\<open>protocol_snapshots\<close> and
  \<^verbatim>\<open>protocol_alerts\<close>. A table is the list of its rows in insertion order.

  Conventions of the embedding:
  \<^item> a \<^verbatim>\<open>datetime\<close> is the integer number of microseconds since the epoch (UTC);
  \<^item> a \<^verbatim>\<open>Decimal\<close> column holds an exact rational; the scale of the \<^verbatim>\<open>DECIMAL\<close> columns
    is not modelled;
  \<^item> a Python \<^verbatim>\<open>float\<close> is the rational that the IEEE-754 double denotes. The
    arithmetic of the TVL-drop rule rounds every conversion, subtraction and division
    to the nearest double (\<open>to_double\<close> below). The two other rules convert one
    column of four decimal places and compare it with a threshold, which gives the
    comparison of the exact values (\<open>apy_comparison_scale4\<close> and
    \<open>utilization_comparison_scale4\<close> below); they are kept on the exact value of the
    column;
  \<^item> a nullable column is an \<open>option\<close>;
  \<^item> the alert text, an f-string over numbers, is kept as the tuple of the values that
    the f-string embeds (type \<open>alert_message\<close>); its rendering is not modelled;
  \<^item> Python names with a leading underscore lose it (\<^verbatim>\<open>_create_alert\<close> is
    \<open>create_alert\<close>), since an Isabelle name cannot start with one;
  \<^item> every \<^verbatim>\<open>datetime.now\<close> of one operation reads the same instant \<open>now\<close>, which
    is a parameter of the operation; two operations, such as two detection passes,
    read two instants;
  \<^item> the storage engine itself does not fail: a commit is refused only for the
    uniqueness constraint that \<^verbatim>\<open>models.py\<close> declares.
\<close>

type_synonym datetime = int

definition timedelta_hours :: "int \<Rightarrow> int" where
  "timedelta_hours h = h * 3600000000"

record ProtocolSnapshot =
  snapshot_id :: int
  snapshot_protocol_name :: string
  timestamp :: datetime
  tvl_usd :: "rat option"
  apy_7d :: "rat option"
  utilization_rate :: "rat option"

datatype alert_message =
    TvlDropMessage rat int rat rat
      \<comment> \<open>\<^verbatim>\<open>drop_pct\<close>, \<^verbatim>\<open>lookback_hours\<close>, \<^verbatim>\<open>old_tvl\<close>, \<^verbatim>\<open>current_tvl\<close>\<close>
  | ApyLowMessage rat rat
      \<comment> \<open>\<^verbatim>\<open>apy\<close>, \<^verbatim>\<open>apy_min\<close>\<close>
  | UtilizationHighMessage rat rat
      \<comment> \<open>\<^verbatim>\<open>util\<close>, \<^verbatim>\<open>util_max\<close>\<close>

record ProtocolAlert =
  alert_id :: int
  protocol_name :: string
  alert_type :: string
  severity :: string
  message :: "alert_message option"
  triggered_at :: datetime
  resolved_at :: "datetime option"

record database =
  snapshots :: "ProtocolSnapshot list"
  alerts :: "ProtocolAlert list"

subsection \<open>Binary floating point\<close>

text \<open>
  \<open>to_double x\<close> is the double nearest to the rational \<open>x\<close>, ties to the even
  significand: \<^verbatim>\<open>float(d)\<close> of a \<^verbatim>\<open>Decimal\<close>, a \<^verbatim>\<open>float\<close> literal, and the rounding
  of the exact result of a \<^verbatim>\<open>float\<close> subtraction or division. A double has a
  significand of 53 bits; the exponent is not bounded here, so overflow and subnormal
  numbers are not modelled (a \<^verbatim>\<open>DECIMAL(20, 2)\<close> column and the quotients of the rule
  stay far inside the range of normal doubles).

  \<open>bitlen n\<close> is the number of binary digits of \<open>n\<close>, and \<open>binade a\<close> the exponent
  \<open>k\<close> with \<open>2 ^ k \<le> a < 2 ^ (k + 1)\<close> of a positive \<open>a\<close>.
\<close>

function bitlen :: "int \<Rightarrow> nat" where
  "bitlen n = (if n \<le> 0 then 0 else Suc (bitlen (n div 2)))"
  by pat_completeness auto
termination
  by (relation "measure nat") auto

declare bitlen.simps [simp del]

definition pow2 :: "int \<Rightarrow> rat" where
  "pow2 e = 2 powi e"

definition binade :: "rat \<Rightarrow> int" where
  "binade a =
     (case quotient_of a of (p, q) \<Rightarrow>
        (let k = int (bitlen p) - int (bitlen q)
         in if pow2 k \<le> a then k else k - 1))"

definition round_half_even :: "rat \<Rightarrow> int" where
  "round_half_even r =
     (let m = \<lfloor>r\<rfloor>; f = r - of_int m
      in if f < 1 / 2 then m else if 1 / 2 < f then m + 1
         else if even m then m else m + 1)"

definition to_double :: "rat \<Rightarrow> rat" where
  "to_double x =
     (if x = 0 then 0
      else (let e = binade \<bar>x\<bar> - 52
            in sgn x * of_int (round_half_even (\<bar>x\<bar> / pow2 e)) * pow2 e))"

subsection \<open>Settings\<close>

text \<open>
  The settings of \<^verbatim>\<open>config.py\<close> that the modelled code reads, with their defaults.
  \<^verbatim>\<open>TVL_DROP_THRESHOLD\<close> is the \<^verbatim>\<open>float\<close> literal \<^verbatim>\<open>0.20\<close>, the double nearest to
  one fifth.
\<close>

record Settings =
  API_RETRY_ATTEMPTS :: int
  API_RETRY_DELAY_SECONDS :: rat
  TVL_DROP_THRESHOLD :: rat
  APY_MIN_THRESHOLD :: rat
  UTILIZATION_MAX_THRESHOLD :: rat
  TVL_LOOKBACK_HOURS :: int

definition settings :: Settings where
  "settings = \<lparr> API_RETRY_ATTEMPTS = 3, API_RETRY_DELAY_SECONDS = 1,
      TVL_DROP_THRESHOLD = to_double (20 / 100), APY_MIN_THRESHOLD = 2,
      UTILIZATION_MAX_THRESHOLD = 95 / 100, TVL_LOOKBACK_HOURS = 24 \<rparr>"

text \<open>Autoincrement primary key: one more than the largest key of the table.\<close>

definition next_id :: "int list \<Rightarrow> int" where
  "next_id ids = fold max ids 0 + 1"

section \<open>Status projection (\<^verbatim>\<open>main.py\<close>, \<^verbatim>\<open>_get_protocol_status\<close>)\<close>

text \<open>
  \<^verbatim>\<open>query.filter(...).first()\<close> is \<open>find\<close>: the first row that satisfies the filter,
  or \<open>None\<close>.
\<close>

definition get_protocol_status :: "database \<Rightarrow> string \<Rightarrow> string" where
  "get_protocol_status db name =
     (case find (\<lambda>a. protocol_name a = name \<and> severity a = ''critical''
                      \<and> resolved_at a = None) (alerts db) of
        Some critical \<Rightarrow> ''critical''
      | None \<Rightarrow>
         (case find (\<lambda>a. protocol_name a = name \<and> severity a = ''warning''
                          \<and> resolved_at a = None) (alerts db) of
            Some warning \<Rightarrow> ''warning''
          | None \<Rightarrow> ''healthy''))"

section \<open>Queries on the snapshot table\<close>

text \<open>
  \<^verbatim>\<open>order_by(desc(ProtocolSnapshot.timestamp)).first()\<close>: the row with the greatest
  timestamp, \<open>None\<close> on no rows. Among rows of equal timestamp (which the constraint
  \<^verbatim>\<open>uq_protocol_timestamp\<close> excludes within one protocol) the earliest inserted is taken.
\<close>

fun first_desc_timestamp :: "ProtocolSnapshot list \<Rightarrow> ProtocolSnapshot option" where
  "first_desc_timestamp [] = None"
| "first_desc_timestamp (s # ss) =
     (case first_desc_timestamp ss of
        None \<Rightarrow> Some s
      | Some m \<Rightarrow> if timestamp s < timestamp m then Some m else Some s)"

definition latest_snapshot :: "database \<Rightarrow> string \<Rightarrow> ProtocolSnapshot option" where
  "latest_snapshot db protocol =
     first_desc_timestamp
       (filter (\<lambda>s. snapshot_protocol_name s = protocol) (snapshots db))"

definition latest_snapshot_until :: "database \<Rightarrow> string \<Rightarrow> datetime \<Rightarrow> ProtocolSnapshot option" where
  "latest_snapshot_until db protocol lookback =
     first_desc_timestamp
       (filter (\<lambda>s. snapshot_protocol_name s = protocol \<and> timestamp s \<le> lookback)
          (snapshots db))"

section \<open>Anomaly detector (\<^verbatim>\<open>anomaly_detector.py\<close>)\<close>

definition LENDING_PROTOCOLS :: "string set" where
  "LENDING_PROTOCOLS = {''felix''}"

definition get_active_protocols :: "datetime \<Rightarrow> database \<Rightarrow> string list" where
  "get_active_protocols now db =
     (let cutoff = now - timedelta_hours 48
      in remdups (map snapshot_protocol_name
                    (filter (\<lambda>s. cutoff \<le> timestamp s) (snapshots db))))"

text \<open>
  \<^verbatim>\<open>_create_alert\<close>: the query for an unresolved alert of the same protocol and type,
  then the insert. The result is the database after the call and the alert returned.
\<close>

definition open_alert :: "database \<Rightarrow> string \<Rightarrow> string \<Rightarrow> ProtocolAlert option" where
  "open_alert db name ty =
     find (\<lambda>a. protocol_name a = name \<and> alert_type a = ty \<and> resolved_at a = None)
       (alerts db)"

definition create_alert ::
  "datetime \<Rightarrow> database \<Rightarrow> string \<Rightarrow> string \<Rightarrow> string \<Rightarrow> alert_message
     \<Rightarrow> database \<times> ProtocolAlert option" where
  "create_alert now db name ty sev msg =
     (case open_alert db name ty of
        Some existing \<Rightarrow> (db, None)
      | None \<Rightarrow>
          (let alert = \<lparr> alert_id = next_id (map alert_id (alerts db)),
                 protocol_name = name, alert_type = ty, severity = sev,
                 message = Some msg, triggered_at = now, resolved_at = None \<rparr>
           in (db \<lparr> alerts := alerts db @ [alert] \<rparr>, Some alert)))"

text \<open>
  \<^verbatim>\<open>_check_tvl_drop\<close>, \<^verbatim>\<open>_check_apy_low\<close> and \<^verbatim>\<open>_check_utilization_high\<close>. A test such
  as \<^verbatim>\<open>not latest.tvl_usd\<close> holds for \<^verbatim>\<open>None\<close> and for a \<^verbatim>\<open>Decimal\<close> equal to zero; it
  is the two branches \<open>None\<close> and \<open>= 0\<close> below. Both queries take the newest row of
  the protocol, with no condition on its metrics.

  The drop of the TVL is computed on \<^verbatim>\<open>float\<close> values: \<^verbatim>\<open>current_tvl\<close> and \<^verbatim>\<open>old_tvl\<close>
  are the doubles nearest to the two columns, and
  \<^verbatim>\<open>(old_tvl - current_tvl) / old_tvl\<close> rounds the difference and then the quotient.
\<close>

definition check_tvl_drop ::
  "Settings \<Rightarrow> datetime \<Rightarrow> database \<Rightarrow> string \<Rightarrow> database \<times> ProtocolAlert option" where
  "check_tvl_drop cfg now db protocol =
     (let lookback = now - timedelta_hours (TVL_LOOKBACK_HOURS cfg) in
      case latest_snapshot db protocol of
        None \<Rightarrow> (db, None)
      | Some latest \<Rightarrow>
         (case tvl_usd latest of
            None \<Rightarrow> (db, None)
          | Some latest_tvl_usd \<Rightarrow>
             if latest_tvl_usd = 0 then (db, None)
             else
              (case latest_snapshot_until db protocol lookback of
                 None \<Rightarrow> (db, None)
               | Some old \<Rightarrow>
                  (case tvl_usd old of
                     None \<Rightarrow> (db, None)
                   | Some old_tvl_usd \<Rightarrow>
                      if old_tvl_usd = 0 then (db, None)
                      else
                       (let current_tvl = to_double latest_tvl_usd;
                            old_tvl = to_double old_tvl_usd
                        in if old_tvl = 0 then (db, None)
                           else
                            (let drop_pct = to_double (to_double (old_tvl - current_tvl)
                                                         / old_tvl)
                             in if TVL_DROP_THRESHOLD cfg < drop_pct
                                then create_alert now db protocol ''tvl_drop'' ''critical''
                                       (TvlDropMessage drop_pct (TVL_LOOKBACK_HOURS cfg)
                                          old_tvl current_tvl)
                                else (db, None)))))))"

definition check_apy_low ::
  "Settings \<Rightarrow> datetime \<Rightarrow> database \<Rightarrow> string \<Rightarrow> database \<times> ProtocolAlert option" where
  "check_apy_low cfg now db protocol =
     (case latest_snapshot db protocol of
        None \<Rightarrow> (db, None)
      | Some latest \<Rightarrow>
         (case apy_7d latest of
            None \<Rightarrow> (db, None)
          | Some apy \<Rightarrow>
             if apy = 0 then (db, None)
             else if apy < APY_MIN_THRESHOLD cfg
             then create_alert now db protocol ''apy_low'' ''warning''
                    (ApyLowMessage apy (APY_MIN_THRESHOLD cfg))
             else (db, None)))"

definition check_utilization_high ::
  "Settings \<Rightarrow> datetime \<Rightarrow> database \<Rightarrow> string \<Rightarrow> database \<times> ProtocolAlert option" where
  "check_utilization_high cfg now db protocol =
     (case latest_snapshot db protocol of
        None \<Rightarrow> (db, None)
      | Some latest \<Rightarrow>
         (case utilization_rate latest of
            None \<Rightarrow> (db, None)
          | Some util \<Rightarrow>
             if util = 0 then (db, None)
             else if UTILIZATION_MAX_THRESHOLD cfg < util
             then create_alert now db protocol ''utilization_high'' ''warning''
                    (UtilizationHighMessage util (UTILIZATION_MAX_THRESHOLD cfg))
             else (db, None)))"

text \<open>
  \<^verbatim>\<open>detect_all\<close>: the body of the loop over the active protocols is \<open>detect_protocol\<close>;
  \<open>append_alert\<close> is \<^verbatim>\<open>if alert: alerts.append(alert)\<close>.
\<close>

definition append_alert :: "ProtocolAlert list \<Rightarrow> ProtocolAlert option \<Rightarrow> ProtocolAlert list" where
  "append_alert acc r = (case r of None \<Rightarrow> acc | Some a \<Rightarrow> acc @ [a])"

definition detect_protocol ::
  "Settings \<Rightarrow> datetime \<Rightarrow> string \<Rightarrow> database \<times> ProtocolAlert list
     \<Rightarrow> database \<times> ProtocolAlert list" where
  "detect_protocol cfg now protocol st =
     (case st of (db, acc) \<Rightarrow>
      (case check_tvl_drop cfg now db protocol of (db1, tvl_alert) \<Rightarrow>
       (case check_apy_low cfg now db1 protocol of (db2, apy_alert) \<Rightarrow>
        (let acc2 = append_alert (append_alert acc tvl_alert) apy_alert in
         if protocol \<in> LENDING_PROTOCOLS
         then (case check_utilization_high cfg now db2 protocol of (db3, util_alert) \<Rightarrow>
                 (db3, append_alert acc2 util_alert))
         else (db2, acc2)))))"

fun detect_loop ::
  "Settings \<Rightarrow> datetime \<Rightarrow> string list \<Rightarrow> database \<times> ProtocolAlert list
     \<Rightarrow> database \<times> ProtocolAlert list" where
  "detect_loop cfg now [] st = st"
| "detect_loop cfg now (protocol # protocols) st =
     detect_loop cfg now protocols (detect_protocol cfg now protocol st)"

definition detect_all :: "Settings \<Rightarrow> datetime \<Rightarrow> database \<Rightarrow> database \<times> ProtocolAlert list" where
  "detect_all cfg now db = detect_loop cfg now (get_active_protocols now db) (db, [])"

section \<open>Alert resolution (\<^verbatim>\<open>main.py\<close>, \<^verbatim>\<open>resolve_alert\<close>)\<close>

text \<open>
  The endpoint either raises (an \<^verbatim>\<open>HTTPException\<close> with its status code and detail, or
  the validation error of the response model, whose \<^verbatim>\<open>severity\<close> is a \<^verbatim>\<open>Literal\<close>) or
  returns the response built from the row. The commit writes the changed row back by
  its primary key.
\<close>

datatype api_error = HTTPException nat string | ValidationError

definition AlertResponse :: "ProtocolAlert \<Rightarrow> api_error + ProtocolAlert" where
  "AlertResponse a =
     (if severity a \<in> {''critical'', ''warning'', ''info''} then Inr a
      else Inl ValidationError)"

definition resolve_alert ::
  "datetime \<Rightarrow> database \<Rightarrow> int \<Rightarrow> database \<times> (api_error + ProtocolAlert)" where
  "resolve_alert now db aid =
     (case find (\<lambda>a. alert_id a = aid) (alerts db) of
        None \<Rightarrow> (db, Inl (HTTPException 404 ''Alert not found''))
      | Some alert \<Rightarrow>
         (case resolved_at alert of
            Some t \<Rightarrow> (db, Inl (HTTPException 400 ''Alert already resolved''))
          | None \<Rightarrow>
             (let db' = db \<lparr> alerts :=
                          map (\<lambda>a. if alert_id a = aid then a \<lparr> resolved_at := Some now \<rparr>
                                    else a) (alerts db) \<rparr>
              in (db', AlertResponse (alert \<lparr> resolved_at := Some now \<rparr>)))))"

section \<open>Ingestion (\<^verbatim>\<open>ingest.py\<close>)\<close>

text \<open>
  \<^verbatim>\<open>_store_snapshot\<close>. The body of the \<^verbatim>\<open>try\<close> is \<open>store_snapshot_try\<close>: it ends in
  an exception or in the value returned, together with the table as committed.
  \<^item> \<^verbatim>\<open>Decimal(str(x)) if x else None\<close> keeps a value only when it is present and
    not zero (\<open>decimal_if\<close>);
  \<^item> the commit raises \<^verbatim>\<open>IntegrityError\<close> when a row of the same protocol and
    timestamp exists (\<^verbatim>\<open>uq_protocol_timestamp\<close>);
  \<^item> after the commit, the log line formats \<^verbatim>\<open>tvl_usd\<close> with \<^verbatim>\<open>:,.2f\<close>, which
    raises \<^verbatim>\<open>TypeError\<close> on \<^verbatim>\<open>None\<close>.
  The handlers roll back, which does not undo a commit already made.
\<close>

datatype store_exception = IntegrityError | TypeError

definition decimal_if :: "rat option \<Rightarrow> rat option" where
  "decimal_if x = (case x of None \<Rightarrow> None | Some v \<Rightarrow> if v = 0 then None else Some v)"

definition store_snapshot_try ::
  "database \<Rightarrow> string \<Rightarrow> datetime \<Rightarrow> rat option \<Rightarrow> rat option \<Rightarrow> rat option
     \<Rightarrow> database \<times> (store_exception + bool)" where
  "store_snapshot_try db name ts tvl apy util =
     (let snapshot = \<lparr> snapshot_id = next_id (map snapshot_id (snapshots db)),
            snapshot_protocol_name = name, timestamp = ts,
            tvl_usd = decimal_if tvl, apy_7d = decimal_if apy,
            utilization_rate = decimal_if util \<rparr>
      in if list_ex (\<lambda>s. snapshot_protocol_name s = name \<and> timestamp s = ts) (snapshots db)
         then (db, Inl IntegrityError)
         else
          (let db' = db \<lparr> snapshots := snapshots db @ [snapshot] \<rparr>
           in case tvl of
                None \<Rightarrow> (db', Inl TypeError)
              | Some v \<Rightarrow> (db', Inr True)))"

definition store_snapshot ::
  "database \<Rightarrow> string \<Rightarrow> datetime \<Rightarrow> rat option \<Rightarrow> rat option \<Rightarrow> rat option
     \<Rightarrow> database \<times> bool" where
  "store_snapshot db name ts tvl apy util =
     (case store_snapshot_try db name ts tvl apy util of
        (db', Inr r) \<Rightarrow> (db', r)
      | (db', Inl IntegrityError) \<Rightarrow> (db', True)
      | (db', Inl TypeError) \<Rightarrow> (db', False))"

text \<open>
  What a fetcher hands to the ingestor: the exception it raised (its text) or the
  metrics. The fetchers draw random numbers and call the network, so their outcome is
  a parameter of \<open>ingest_all\<close>. The two ingestion tasks store under different protocol
  names; they are run here in the order of the task list.
\<close>

record FetchedMetrics =
  fetched_tvl_usd :: "rat option"
  fetched_apy_7d :: "rat option"
  fetched_utilization_rate :: "rat option"

definition ingest_felix ::
  "datetime \<Rightarrow> database \<Rightarrow> string + FetchedMetrics \<Rightarrow> database \<times> bool" where
  "ingest_felix ts db fetched =
     (case fetched of
        Inl e \<Rightarrow> (db, False)
      | Inr metrics \<Rightarrow>
          store_snapshot db ''felix'' ts (fetched_tvl_usd metrics) (fetched_apy_7d metrics)
            (fetched_utilization_rate metrics))"

definition ingest_hlp ::
  "datetime \<Rightarrow> database \<Rightarrow> string + FetchedMetrics \<Rightarrow> database \<times> bool" where
  "ingest_hlp ts db fetched =
     (case fetched of
        Inl e \<Rightarrow> (db, False)
      | Inr metrics \<Rightarrow>
          store_snapshot db ''hlp'' ts (fetched_tvl_usd metrics) (fetched_apy_7d metrics)
            (fetched_utilization_rate metrics))"

text \<open>The counting loop over the gathered outcomes (an exception object or a bool).\<close>

fun count_outcomes :: "(string + bool) list \<Rightarrow> nat \<times> nat \<Rightarrow> nat \<times> nat" where
  "count_outcomes [] c = c"
| "count_outcomes (outcome # outcomes) (successful, failed) =
     (case outcome of
        Inl e \<Rightarrow> count_outcomes outcomes (successful, failed + 1)
      | Inr ok \<Rightarrow>
          if ok then count_outcomes outcomes (successful + 1, failed)
          else count_outcomes outcomes (successful, failed + 1))"

definition ingest_all ::
  "Settings \<Rightarrow> datetime \<Rightarrow> datetime \<Rightarrow> database \<Rightarrow> string + FetchedMetrics
     \<Rightarrow> string + FetchedMetrics \<Rightarrow> database \<times> nat \<times> nat" where
  "ingest_all cfg ts now db felix hlp =
     (case ingest_felix ts db felix of (db1, felix_outcome) \<Rightarrow>
      (case ingest_hlp ts db1 hlp of (db2, hlp_outcome) \<Rightarrow>
       (let counts = count_outcomes [Inr felix_outcome, Inr hlp_outcome] (0, 0)
        in (fst (detect_all cfg now db2), counts))))"

section \<open>TVL fetcher (\<^verbatim>\<open>fetchers/defillama.py\<close>, \<^verbatim>\<open>fetch_tvl\<close>)\<close>

text \<open>
  The network is a parameter: \<open>client attempt\<close> is what the request of that attempt
  ends in. A response carries its status code and the result of
  \<^verbatim>\<open>float(response.text)\<close>, \<open>None\<close> when that raises \<^verbatim>\<open>ValueError\<close>. The loop records
  what it does: each request and each sleep with its delay in seconds.
\<close>

datatype http_result = Response int "rat option" | TimeoutException | RequestError

datatype fetch_event = Request nat | Sleep rat

fun fetch_tvl_loop ::
  "int \<Rightarrow> rat \<Rightarrow> (nat \<Rightarrow> http_result) \<Rightarrow> nat list \<Rightarrow> fetch_event list
     \<Rightarrow> rat option \<times> fetch_event list" where
  "fetch_tvl_loop max_retries retry_delay client [] trace = (None, trace)"
| "fetch_tvl_loop max_retries retry_delay client (attempt # attempts) trace =
     (case client attempt of
        Response status_code body \<Rightarrow>
          if status_code = 200 then
            (case body of
               Some tvl \<Rightarrow> (Some tvl, trace @ [Request attempt])
             | None \<Rightarrow> (None, trace @ [Request attempt]))
          else if 500 \<le> status_code then
            (if int attempt < max_retries - 1
             then fetch_tvl_loop max_retries retry_delay client attempts
                    (trace @ [Request attempt, Sleep (retry_delay * (of_nat attempt + 1))])
             else fetch_tvl_loop max_retries retry_delay client attempts
                    (trace @ [Request attempt]))
          else if status_code = 404 then (None, trace @ [Request attempt])
          else (None, trace @ [Request attempt])
      | TimeoutException \<Rightarrow>
          (if int attempt < max_retries - 1
           then fetch_tvl_loop max_retries retry_delay client attempts
                  (trace @ [Request attempt, Sleep (retry_delay * (of_nat attempt + 1))])
           else fetch_tvl_loop max_retries retry_delay client attempts
                  (trace @ [Request attempt]))
      | RequestError \<Rightarrow> (None, trace @ [Request attempt]))"

definition fetch_tvl :: "Settings \<Rightarrow> (nat \<Rightarrow> http_result) \<Rightarrow> rat option \<times> fetch_event list" where
  "fetch_tvl cfg client =
     fetch_tvl_loop (API_RETRY_ATTEMPTS cfg) (API_RETRY_DELAY_SECONDS cfg) client
       [0..<nat (API_RETRY_ATTEMPTS cfg)] []"

section \<open>Notions used by the properties, and example tables\<close>

text \<open>
  Three alerts: for \<^verbatim>\<open>felix\<close> an open warning and an open critical one, for
  \<^verbatim>\<open>hlp\<close> a resolved critical one.
\<close>

definition status_db_mixed :: database where
  "status_db_mixed = \<lparr> snapshots = [], alerts =
     [\<lparr> alert_id = 1, protocol_name = ''felix'', alert_type = ''apy_low'',
         severity = ''warning'', message = Some (ApyLowMessage (3 / 2) 2),
         triggered_at = 100, resolved_at = None \<rparr>,
      \<lparr> alert_id = 2, protocol_name = ''felix'', alert_type = ''tvl_drop'',
         severity = ''critical'', message = None,
         triggered_at = 200, resolved_at = None \<rparr>,
      \<lparr> alert_id = 3, protocol_name = ''hlp'', alert_type = ''tvl_drop'',
         severity = ''critical'', message = None,
         triggered_at = 200, resolved_at = Some 300 \<rparr>] \<rparr>"

text \<open>The primary key of the alert table: no two rows share an \<^verbatim>\<open>id\<close>.\<close>

definition alert_ids_distinct :: "database \<Rightarrow> bool" where
  "alert_ids_distinct db = distinct (map alert_id (alerts db))"

text \<open>
  The constraint \<^verbatim>\<open>uq_protocol_timestamp\<close> of the snapshot table, and the rows stored
  for one protocol at one timestamp.
\<close>

definition uq_protocol_timestamp :: "database \<Rightarrow> bool" where
  "uq_protocol_timestamp db =
     distinct (map (\<lambda>s. (snapshot_protocol_name s, timestamp s)) (snapshots db))"

definition rows_at :: "database \<Rightarrow> string \<Rightarrow> datetime \<Rightarrow> ProtocolSnapshot list" where
  "rows_at db name ts =
     filter (\<lambda>s. snapshot_protocol_name s = name \<and> timestamp s = ts) (snapshots db)"

definition empty_db :: database where
  "empty_db = \<lparr> snapshots = [], alerts = [] \<rparr>"

text \<open>
  What a rule hands to \<^verbatim>\<open>_create_alert\<close>: the message of the candidate alert when the
  rule fires on the snapshot table, \<open>None\<close> when the rule returns early. These follow
  the branches of the three checks; \<open>check_tvl_drop_fire\<close>, \<open>check_apy_low_fire\<close> and
  \<open>check_utilization_high_fire\<close> below prove that each check is its candidate passed
  on to \<open>create_alert\<close>.
\<close>

definition tvl_drop_candidate ::
  "Settings \<Rightarrow> datetime \<Rightarrow> database \<Rightarrow> string \<Rightarrow> alert_message option" where
  "tvl_drop_candidate cfg now db protocol =
     (case latest_snapshot db protocol of
        None \<Rightarrow> None
      | Some latest \<Rightarrow>
         (case tvl_usd latest of
            None \<Rightarrow> None
          | Some latest_tvl_usd \<Rightarrow>
             if latest_tvl_usd = 0 then None
             else
              (case latest_snapshot_until db protocol
                      (now - timedelta_hours (TVL_LOOKBACK_HOURS cfg)) of
                 None \<Rightarrow> None
               | Some old \<Rightarrow>
                  (case tvl_usd old of
                     None \<Rightarrow> None
                   | Some old_tvl_usd \<Rightarrow>
                      if old_tvl_usd = 0 then None
                      else
                       (let current_tvl = to_double latest_tvl_usd;
                            old_tvl = to_double old_tvl_usd
                        in if old_tvl = 0 then None
                           else
                            (let drop_pct = to_double (to_double (old_tvl - current_tvl)
                                                         / old_tvl)
                             in if TVL_DROP_THRESHOLD cfg < drop_pct
                                then Some (TvlDropMessage drop_pct (TVL_LOOKBACK_HOURS cfg)
                                             old_tvl current_tvl)
                                else None))))))"

definition apy_low_candidate :: "Settings \<Rightarrow> database \<Rightarrow> string \<Rightarrow> alert_message option" where
  "apy_low_candidate cfg db protocol =
     (case latest_snapshot db protocol of
        None \<Rightarrow> None
      | Some latest \<Rightarrow>
         (case apy_7d latest of
            None \<Rightarrow> None
          | Some apy \<Rightarrow>
             if apy \<noteq> 0 \<and> apy < APY_MIN_THRESHOLD cfg
             then Some (ApyLowMessage apy (APY_MIN_THRESHOLD cfg)) else None))"

definition utilization_high_candidate ::
  "Settings \<Rightarrow> database \<Rightarrow> string \<Rightarrow> alert_message option" where
  "utilization_high_candidate cfg db protocol =
     (case latest_snapshot db protocol of
        None \<Rightarrow> None
      | Some latest \<Rightarrow>
         (case utilization_rate latest of
            None \<Rightarrow> None
          | Some util \<Rightarrow>
             if util \<noteq> 0 \<and> UTILIZATION_MAX_THRESHOLD cfg < util
             then Some (UtilizationHighMessage util (UTILIZATION_MAX_THRESHOLD cfg))
             else None))"

definition fire ::
  "datetime \<Rightarrow> database \<Rightarrow> string \<Rightarrow> string \<Rightarrow> string \<Rightarrow> alert_message option
     \<Rightarrow> database \<times> ProtocolAlert option" where
  "fire now db name ty sev candidate =
     (case candidate of
        None \<Rightarrow> (db, None)
      | Some msg \<Rightarrow> create_alert now db name ty sev msg)"

text \<open>
  \<open>extends db db'\<close>: the later tables \<open>db'\<close> have the snapshots of \<open>db\<close> and its alert
  rows, unchanged and in place, followed by new ones.
\<close>

definition extends :: "database \<Rightarrow> database \<Rightarrow> bool" where
  "extends db db' =
     (snapshots db' = snapshots db \<and> take (length (alerts db)) (alerts db') = alerts db)"

text \<open>A pass over protocol \<open>p\<close> is settled when none of its checks does anything.\<close>

definition settled :: "Settings \<Rightarrow> datetime \<Rightarrow> database \<Rightarrow> string \<Rightarrow> bool" where
  "settled cfg now db p =
     (check_tvl_drop cfg now db p = (db, None)
      \<and> check_apy_low cfg now db p = (db, None)
      \<and> (if p \<in> LENDING_PROTOCOLS then check_utilization_high cfg now db p = (db, None)
         else True))"

text \<open>The deduplication invariant: the open alerts have distinct (protocol, type).\<close>

definition open_alerts_unique :: "database \<Rightarrow> bool" where
  "open_alerts_unique db =
     distinct (map (\<lambda>a. (protocol_name a, alert_type a))
                 (filter (\<lambda>a. resolved_at a = None) (alerts db)))"

text \<open>
  A crash of \<^verbatim>\<open>felix\<close>, as \<^verbatim>\<open>scripts/demo_alert.py\<close> stages it: a snapshot with a TVL of
  100,000,000 at instant 0 and, 24 hours and 5 minutes later, one with a TVL of
  50,000,000, an APY of 1.5 and a utilization of 0.99. No alert yet.
\<close>

definition crash_db :: database where
  "crash_db = \<lparr> snapshots =
     [\<lparr> snapshot_id = 1, snapshot_protocol_name = ''felix'', timestamp = 0,
         tvl_usd = Some 100000000, apy_7d = Some 10, utilization_rate = Some (80 / 100) \<rparr>,
      \<lparr> snapshot_id = 2, snapshot_protocol_name = ''felix'', timestamp = 86700000000,
         tvl_usd = Some 50000000, apy_7d = Some (15 / 10),
         utilization_rate = Some (99 / 100) \<rparr>],
     alerts = [] \<rparr>"

text \<open>
  The same crash one millisecond before the 24 hours are over: the second snapshot,
  with a TVL of 50,000,000, is taken at 24 hours less one millisecond; APY and
  utilization stay at 10 and 0.80. No alert yet.
\<close>

definition tick_db :: database where
  "tick_db = \<lparr> snapshots =
     [\<lparr> snapshot_id = 1, snapshot_protocol_name = ''felix'', timestamp = 0,
         tvl_usd = Some 100000000, apy_7d = Some 10, utilization_rate = Some (80 / 100) \<rparr>,
      \<lparr> snapshot_id = 2, snapshot_protocol_name = ''felix'', timestamp = 86399999000,
         tvl_usd = Some 50000000, apy_7d = Some 10,
         utilization_rate = Some (80 / 100) \<rparr>],
     alerts = [] \<rparr>"

text \<open>
  The tables that the operations build from empty tables: storing snapshots, detection
  passes and resolution requests, in any order.
\<close>

inductive reachable :: "database \<Rightarrow> bool" where
  reachable_empty: "reachable empty_db"
| reachable_store: "reachable db \<Longrightarrow> reachable (fst (store_snapshot db name ts tvl apy util))"
| reachable_detect: "reachable db \<Longrightarrow> reachable (fst (detect_all cfg now db))"
| reachable_resolve: "reachable db \<Longrightarrow> reachable (fst (resolve_alert now db aid))"

text \<open>
  The rules as the specification words them, for comparison with the checks: the
  specification takes the most recent sample among those whose metric is not null.
\<close>

definition spec_latest_with ::
  "(ProtocolSnapshot \<Rightarrow> rat option) \<Rightarrow> database \<Rightarrow> string \<Rightarrow> ProtocolSnapshot option" where
  "spec_latest_with metric db protocol =
     first_desc_timestamp
       (filter (\<lambda>s. snapshot_protocol_name s = protocol \<and> metric s \<noteq> None) (snapshots db))"

definition spec_latest_with_until ::
  "(ProtocolSnapshot \<Rightarrow> rat option) \<Rightarrow> database \<Rightarrow> string \<Rightarrow> datetime
     \<Rightarrow> ProtocolSnapshot option" where
  "spec_latest_with_until metric db protocol lookback =
     first_desc_timestamp
       (filter (\<lambda>s. snapshot_protocol_name s = protocol \<and> metric s \<noteq> None
                     \<and> timestamp s \<le> lookback) (snapshots db))"

definition spec_tvl_drop_candidate :: "Settings \<Rightarrow> datetime \<Rightarrow> database \<Rightarrow> string \<Rightarrow> bool" where
  "spec_tvl_drop_candidate cfg now db protocol =
     (case spec_latest_with tvl_usd db protocol of
        None \<Rightarrow> False
      | Some latest \<Rightarrow>
         (case spec_latest_with_until tvl_usd db protocol
                 (now - timedelta_hours (TVL_LOOKBACK_HOURS cfg)) of
            None \<Rightarrow> False
          | Some old \<Rightarrow>
             (case (tvl_usd latest, tvl_usd old) of
                (Some latest_tvl, Some old_tvl) \<Rightarrow>
                  old_tvl \<noteq> 0 \<and> TVL_DROP_THRESHOLD cfg < (old_tvl - latest_tvl) / old_tvl
              | _ \<Rightarrow> False)))"

definition spec_apy_low_candidate :: "Settings \<Rightarrow> database \<Rightarrow> string \<Rightarrow> bool" where
  "spec_apy_low_candidate cfg db protocol =
     (case spec_latest_with apy_7d db protocol of
        None \<Rightarrow> False
      | Some latest \<Rightarrow>
         (case apy_7d latest of
            None \<Rightarrow> False
          | Some apy \<Rightarrow> apy < APY_MIN_THRESHOLD cfg))"

definition spec_utilization_high_candidate :: "Settings \<Rightarrow> database \<Rightarrow> string \<Rightarrow> bool" where
  "spec_utilization_high_candidate cfg db protocol =
     (protocol \<in> LENDING_PROTOCOLS \<and>
      (case spec_latest_with utilization_rate db protocol of
         None \<Rightarrow> False
       | Some latest \<Rightarrow>
          (case utilization_rate latest of
             None \<Rightarrow> False
           | Some util \<Rightarrow> UTILIZATION_MAX_THRESHOLD cfg < util)))"

text \<open>
  The staged crash followed, one minute later, by a snapshot of \<^verbatim>\<open>felix\<close> in which all
  three metrics are null.
\<close>

definition gap_db :: database where
  "gap_db = \<lparr> snapshots = snapshots crash_db @
     [\<lparr> snapshot_id = 3, snapshot_protocol_name = ''felix'', timestamp = 86760000000,
         tvl_usd = None, apy_7d = None, utilization_rate = None \<rparr>],
     alerts = [] \<rparr>"

text \<open>
  A mild day: \<^verbatim>\<open>felix\<close> falls from 100,000,000 to 85,000,000 with an APY of 2.5 and a
  utilization of 0.80; \<^verbatim>\<open>hlp\<close>, not a lending protocol, reports an APY of 1.5 and a
  utilization of 0.99.
\<close>

definition mild_db :: database where
  "mild_db = \<lparr> snapshots =
     [\<lparr> snapshot_id = 1, snapshot_protocol_name = ''felix'', timestamp = 0,
         tvl_usd = Some 100000000, apy_7d = Some 10, utilization_rate = Some (80 / 100) \<rparr>,
      \<lparr> snapshot_id = 2, snapshot_protocol_name = ''felix'', timestamp = 86700000000,
         tvl_usd = Some 85000000, apy_7d = Some (25 / 10),
         utilization_rate = Some (80 / 100) \<rparr>,
      \<lparr> snapshot_id = 3, snapshot_protocol_name = ''hlp'', timestamp = 86700000000,
         tvl_usd = Some 520000000, apy_7d = Some (15 / 10),
         utilization_rate = Some (99 / 100) \<rparr>],
     alerts = [] \<rparr>"

text \<open>
  A fall of exactly one fifth: \<^verbatim>\<open>felix\<close> goes from 14,999.95 (\<open>299999 / 20\<close>) to
  11,999.96 (\<open>299999 / 25\<close>) with an APY of 10 and a utilization of 0.80.
\<close>

definition fifth_db :: database where
  "fifth_db = \<lparr> snapshots =
     [\<lparr> snapshot_id = 1, snapshot_protocol_name = ''felix'', timestamp = 0,
         tvl_usd = Some (299999 / 20), apy_7d = Some 10,
         utilization_rate = Some (80 / 100) \<rparr>,
      \<lparr> snapshot_id = 2, snapshot_protocol_name = ''felix'', timestamp = 86700000000,
         tvl_usd = Some (299999 / 25), apy_7d = Some 10,
         utilization_rate = Some (80 / 100) \<rparr>],
     alerts = [] \<rparr>"




text \<open>
  The failures of a request, as the specification sorts them: transient ones (a status
  of 500 or more, a timeout) and the permanent ones it names (a 404 response, a 200
  response whose payload is not a number). \<open>is_request\<close> picks the requests out of a
  trace; \<open>backoff delay k\<close> is the trace of \<open>k\<close> failed attempts, each followed by its
  sleep.
\<close>

definition transient :: "http_result \<Rightarrow> bool" where
  "transient r = (case r of Response status_code body \<Rightarrow> 500 \<le> status_code
                          | TimeoutException \<Rightarrow> True | RequestError \<Rightarrow> False)"

definition permanent_failure :: "http_result \<Rightarrow> bool" where
  "permanent_failure r = (case r of Response status_code body \<Rightarrow>
                              status_code = 404 \<or> (status_code = 200 \<and> body = None)
                          | TimeoutException \<Rightarrow> False | RequestError \<Rightarrow> False)"

fun is_request :: "fetch_event \<Rightarrow> bool" where
  "is_request (Request attempt) = True"
| "is_request (Sleep seconds) = False"

definition backoff :: "rat \<Rightarrow> nat \<Rightarrow> nat \<Rightarrow> fetch_event list" where
  "backoff retry_delay j k =
     concat (map (\<lambda>i. [Request i, Sleep (retry_delay * (of_nat i + 1))]) [j..<k])"

text \<open>Two networks: one that always answers 503, one that times out once and then answers 404.\<close>

definition always_503 :: "nat \<Rightarrow> http_result" where
  "always_503 attempt = Response 503 None"

definition timeout_then_404 :: "nat \<Rightarrow> http_result" where
  "timeout_then_404 attempt = (if attempt = 0 then TimeoutException else Response 404 None)"

section \<open>Rounding to the nearest double\<close>

text \<open>
  The rounding is what its name says: for \<open>x \<noteq> 0\<close> the result is a signed integer
  significand between \<open>2 ^ 52\<close> and \<open>2 ^ 53\<close> times a power of two, at most half a
  unit in the last place away from \<open>x\<close>; and only zero rounds to zero.
\<close>

lemma bitlen_bounds: "0 < n \<Longrightarrow> 2 ^ (bitlen n - 1) \<le> n \<and> n < 2 ^ bitlen n"
proof (induction n rule: bitlen.induct)
  case (1 n)
  show ?case
  proof (cases "n = 1")
    case True
    then show ?thesis by (simp add: bitlen.simps)
  next
    case False
    with "1.prems" have h: "0 < n div 2" by simp
    with "1.IH" "1.prems" have ih: "2 ^ (bitlen (n div 2) - 1) \<le> n div 2"
      "n div 2 < 2 ^ bitlen (n div 2)" by simp_all
    from h have pos: "0 < bitlen (n div 2)" by (simp add: bitlen.simps [of "n div 2"])
    have b: "bitlen n = Suc (bitlen (n div 2))"
      using "1.prems" by (simp add: bitlen.simps [of n])
    from pos have e: "(2::int) ^ bitlen (n div 2) = 2 * 2 ^ (bitlen (n div 2) - 1)"
      by (cases "bitlen (n div 2)") simp_all
    from ih(1) have "2 * 2 ^ (bitlen (n div 2) - 1) \<le> n" by linarith
    moreover from ih(2) have "n < 2 * 2 ^ bitlen (n div 2)" by linarith
    ultimately show ?thesis by (simp add: b e)
  qed
qed

lemma bitlen_pos: "0 < n \<Longrightarrow> 0 < bitlen n"
  by (simp add: bitlen.simps [of n])

lemma pow2_pos: "0 < pow2 e"
  by (simp add: pow2_def)

lemma pow2_diff_nat: "pow2 (int i - int j) = 2 ^ i / 2 ^ j"
  by (simp add: pow2_def power_int_diff)

lemma pow2_Suc: "pow2 (e + 1) = 2 * pow2 e"
  by (simp add: pow2_def power_int_add)

lemma binade_bounds:
  assumes "0 < a"
  shows "pow2 (binade a) \<le> a \<and> a < pow2 (binade a + 1)"
proof -
  obtain p q where pq: "quotient_of a = (p, q)" by (cases "quotient_of a")
  then have q: "0 < q" and a: "a = of_int p / of_int q"
    by (simp_all add: quotient_of_denom_pos quotient_of_div)
  from assms a q have p: "0 < p"
    by (simp add: zero_less_divide_iff)
  let ?bp = "bitlen p" and ?bq = "bitlen q"
  let ?k = "int ?bp - int ?bq"
  from bitlen_bounds [OF p] have p1: "2 ^ (?bp - 1) \<le> p" and p2: "p < 2 ^ ?bp" by simp_all
  from bitlen_bounds [OF q] have q1: "2 ^ (?bq - 1) \<le> q" and q2: "q < 2 ^ ?bq" by simp_all
  have hp: "(2::int) ^ ?bp = 2 * 2 ^ (?bp - 1)"
    using bitlen_pos [OF p] by (cases ?bp) simp_all
  have hq: "(2::int) ^ ?bq = 2 * 2 ^ (?bq - 1)"
    using bitlen_pos [OF q] by (cases ?bq) simp_all
  from p1 hp have p1': "2 ^ ?bp \<le> 2 * p" by simp
  from q1 hq have q1': "2 ^ ?bq \<le> 2 * q" by simp
  have up_int: "p * 2 ^ ?bq < 2 * 2 ^ ?bp * q"
  proof -
    have "p * 2 ^ ?bq \<le> p * (2 * q)" using q1' p by simp
    also have "\<dots> < 2 ^ ?bp * (2 * q)" using p2 q by simp
    finally show ?thesis by (simp add: mult_ac)
  qed
  have lo_int: "2 ^ ?bp * q \<le> 2 * 2 ^ ?bq * p"
  proof -
    have "2 ^ ?bp * q \<le> (2 * p) * q" using p1' q by simp
    also have "\<dots> \<le> (2 * p) * 2 ^ ?bq" using q2 p by simp
    finally show ?thesis by (simp add: mult_ac)
  qed
  have up: "a < pow2 (?k + 1)"
  proof -
    from up_int have "of_int (p * 2 ^ ?bq) < (of_int (2 * 2 ^ ?bp * q) :: rat)"
      by (simp only: of_int_less_iff)
    then have "of_int p * 2 ^ ?bq < 2 * 2 ^ ?bp * (of_int q :: rat)" by simp
    then have "of_int p / of_int q < 2 * (2 ^ ?bp / 2 ^ ?bq :: rat)"
      using q by (simp add: field_simps)
    then show ?thesis by (simp add: a pow2_Suc pow2_diff_nat)
  qed
  have lo: "pow2 (?k - 1) \<le> a"
  proof -
    from lo_int have "of_int (2 ^ ?bp * q) \<le> (of_int (2 * 2 ^ ?bq * p) :: rat)"
      by (simp only: of_int_le_iff)
    then have "2 ^ ?bp * of_int q \<le> 2 * 2 ^ ?bq * (of_int p :: rat)" by simp
    then have "(2 ^ ?bp / 2 ^ ?bq :: rat) \<le> 2 * (of_int p / of_int q)"
      using q by (simp add: field_simps)
    moreover have "pow2 ?k = 2 * pow2 (?k - 1)"
      using pow2_Suc [of "?k - 1"] by simp
    ultimately show ?thesis by (simp add: a pow2_diff_nat)
  qed
  show ?thesis
  proof (cases "pow2 ?k \<le> a")
    case True
    with up show ?thesis by (simp add: binade_def pq Let_def)
  next
    case False
    with lo show ?thesis by (simp add: binade_def pq Let_def)
  qed
qed

lemma round_half_even_near:
  "\<bar>of_int (round_half_even r) - r\<bar> \<le> 1 / 2"
  "\<lfloor>r\<rfloor> \<le> round_half_even r" "round_half_even r \<le> \<lfloor>r\<rfloor> + 1"
proof -
  have f: "of_int \<lfloor>r\<rfloor> \<le> r" "r < of_int \<lfloor>r\<rfloor> + 1"
    by linarith+
  show "\<bar>of_int (round_half_even r) - r\<bar> \<le> 1 / 2"
    using f by (auto simp: round_half_even_def Let_def)
  show "\<lfloor>r\<rfloor> \<le> round_half_even r" "round_half_even r \<le> \<lfloor>r\<rfloor> + 1"
    by (auto simp: round_half_even_def Let_def)
qed

lemma significand_range:
  assumes "0 < a"
  shows "2 ^ 52 \<le> a / pow2 (binade a - 52)" "a / pow2 (binade a - 52) < 2 ^ 53"
proof -
  let ?c = "pow2 (binade a - 52)"
  have c: "0 < ?c" by (rule pow2_pos)
  have e: "2 ^ 52 * ?c = pow2 (binade a)"
    by (simp add: pow2_def power_int_diff)
  then have e2: "2 ^ 53 * ?c = 2 * pow2 (binade a)" by simp
  from binade_bounds [OF assms] have b: "pow2 (binade a) \<le> a" "a < 2 * pow2 (binade a)"
    by (simp_all add: pow2_Suc)
  from b(1) show "2 ^ 52 \<le> a / ?c"
    by (simp only: pos_le_divide_eq [OF c] e)
  from b(2) show "a / ?c < 2 ^ 53"
    by (simp only: pos_divide_less_eq [OF c] e2)
qed

lemma to_double_nearest:
  assumes "x \<noteq> 0"
  shows "to_double x =
           sgn x * of_int (round_half_even (\<bar>x\<bar> / pow2 (binade \<bar>x\<bar> - 52)))
             * pow2 (binade \<bar>x\<bar> - 52)"
    and "2 ^ 52 \<le> round_half_even (\<bar>x\<bar> / pow2 (binade \<bar>x\<bar> - 52))"
    and "round_half_even (\<bar>x\<bar> / pow2 (binade \<bar>x\<bar> - 52)) \<le> 2 ^ 53"
    and "\<bar>to_double x - x\<bar> \<le> pow2 (binade \<bar>x\<bar> - 52) / 2"
proof -
  let ?e = "binade \<bar>x\<bar> - 52"
  let ?r = "\<bar>x\<bar> / pow2 ?e"
  let ?m = "round_half_even ?r"
  from assms have a: "0 < \<bar>x\<bar>" by simp
  show d: "to_double x = sgn x * of_int ?m * pow2 ?e"
    using assms by (simp add: to_double_def Let_def)
  from significand_range [OF a] have r: "2 ^ 52 \<le> ?r" "?r < 2 ^ 53" by simp_all
  from r(1) have "(2::int) ^ 52 \<le> \<lfloor>?r\<rfloor>" by (simp add: le_floor_iff)
  with round_half_even_near(2) [of ?r] show "2 ^ 52 \<le> ?m" by linarith
  from r(2) have "\<lfloor>?r\<rfloor> < (2::int) ^ 53" by (simp add: floor_less_iff)
  with round_half_even_near(3) [of ?r] show "?m \<le> 2 ^ 53" by linarith
  have pos: "0 < pow2 ?e" by (rule pow2_pos)
  have x: "x = sgn x * ?r * pow2 ?e"
    using pos by (simp add: sgn_mult_abs)
  have "to_double x - x = sgn x * (of_int ?m - ?r) * pow2 ?e"
    by (subst d, subst (2) x) (simp add: algebra_simps)
  then have "\<bar>to_double x - x\<bar> = \<bar>of_int ?m - ?r\<bar> * pow2 ?e"
    using assms pos by (simp add: abs_mult abs_sgn_eq)
  also have "\<dots> \<le> (1 / 2) * pow2 ?e"
    using round_half_even_near(1) [of ?r] pos by (simp only: mult_right_mono less_imp_le)
  finally show "\<bar>to_double x - x\<bar> \<le> pow2 ?e / 2" by simp
qed

lemma to_double_eq_0_iff: "to_double x = 0 \<longleftrightarrow> x = 0"
proof
  assume z: "to_double x = 0"
  show "x = 0"
  proof (rule ccontr)
    assume n: "x \<noteq> 0"
    from to_double_nearest(2) [OF n]
    have "round_half_even (\<bar>x\<bar> / pow2 (binade \<bar>x\<bar> - 52)) \<noteq> 0" by auto
    with n pow2_pos [of "binade \<bar>x\<bar> - 52"] z show False
      by (simp add: to_double_nearest(1) [OF n] sgn_eq_0_iff)
  qed
next
  assume "x = 0"
  then show "to_double x = 0" by (simp add: to_double_def)
qed

text \<open>Rounding is monotone.\<close>

lemma pow2_mono: "e \<le> e' \<Longrightarrow> pow2 e \<le> pow2 e'"
  by (simp add: pow2_def power_int_increasing)

lemma pow2_less_cancel: "pow2 e < pow2 e' \<Longrightarrow> e < e'"
proof (rule ccontr)
  assume "pow2 e < pow2 e'" and "\<not> e < e'"
  then have "e' \<le> e" by simp
  then have "pow2 e' \<le> pow2 e" by (rule pow2_mono)
  with \<open>pow2 e < pow2 e'\<close> show False by simp
qed

lemma round_half_even_mono:
  assumes "r \<le> s"
  shows "round_half_even r \<le> round_half_even s"
proof (cases "\<lfloor>r\<rfloor> = \<lfloor>s\<rfloor>")
  case True
  with assms show ?thesis
    by (auto simp: round_half_even_def Let_def)
next
  case False
  from assms have "\<lfloor>r\<rfloor> \<le> \<lfloor>s\<rfloor>" by (rule floor_mono)
  with False have "\<lfloor>r\<rfloor> + 1 \<le> \<lfloor>s\<rfloor>" by simp
  with round_half_even_near(3) [of r] round_half_even_near(2) [of s] show ?thesis
    by linarith
qed

lemma binade_mono:
  assumes "0 < x" "x \<le> y"
  shows "binade x \<le> binade y"
proof -
  from assms have y: "0 < y" by simp
  from binade_bounds [OF assms(1)] binade_bounds [OF y] assms(2)
  have "pow2 (binade x) < pow2 (binade y + 1)" by simp
  then have "binade x < binade y + 1" by (rule pow2_less_cancel)
  then show ?thesis by simp
qed

lemma to_double_pos:
  assumes "0 < x"
  shows "to_double x = of_int (round_half_even (x / pow2 (binade x - 52))) * pow2 (binade x - 52)"
    and "pow2 (binade x) \<le> to_double x" and "to_double x \<le> pow2 (binade x + 1)"
proof -
  let ?e = "binade x - 52"
  let ?m = "round_half_even (x / pow2 ?e)"
  from assms have n: "x \<noteq> 0" and a: "\<bar>x\<bar> = x" and s: "sgn x = 1" by simp_all
  from to_double_nearest(1) [OF n] show d: "to_double x = of_int ?m * pow2 ?e"
    by (simp add: a s)
  have pos: "0 < pow2 ?e" by (rule pow2_pos)
  have lo: "2 ^ 52 * pow2 ?e = pow2 (binade x)"
    by (simp add: pow2_def power_int_diff)
  have hi: "2 ^ 53 * pow2 ?e = pow2 (binade x + 1)"
    by (simp add: pow2_def power_int_diff power_int_add)
  from to_double_nearest(2) [OF n] have "(2::rat) ^ 52 \<le> of_int ?m"
    unfolding a by (metis of_int_le_iff of_int_numeral of_int_power)
  then have "2 ^ 52 * pow2 ?e \<le> of_int ?m * pow2 ?e"
    using pos by (simp only: mult_right_mono less_imp_le)
  then show "pow2 (binade x) \<le> to_double x" by (simp only: d lo)
  from to_double_nearest(3) [OF n] have "of_int ?m \<le> (2::rat) ^ 53"
    unfolding a by (metis of_int_le_iff of_int_numeral of_int_power)
  then have "of_int ?m * pow2 ?e \<le> 2 ^ 53 * pow2 ?e"
    using pos by (simp only: mult_right_mono less_imp_le)
  then show "to_double x \<le> pow2 (binade x + 1)" by (simp only: d hi)
qed

lemma to_double_mono_pos:
  assumes "0 < x" "x \<le> y"
  shows "to_double x \<le> to_double y"
proof -
  from assms have y: "0 < y" by simp
  from binade_mono [OF assms] have "binade x = binade y \<or> binade x + 1 \<le> binade y"
    by linarith
  then show ?thesis
  proof
    assume e: "binade x = binade y"
    let ?c = "pow2 (binade y - 52)"
    have pos: "0 < ?c" by (rule pow2_pos)
    from assms(2) pos have "x / ?c \<le> y / ?c" by (simp add: divide_right_mono)
    then have "round_half_even (x / ?c) \<le> round_half_even (y / ?c)"
      by (rule round_half_even_mono)
    then have "(of_int (round_half_even (x / ?c)) :: rat) \<le> of_int (round_half_even (y / ?c))"
      by (simp only: of_int_le_iff)
    then have "of_int (round_half_even (x / ?c)) * ?c \<le> of_int (round_half_even (y / ?c)) * ?c"
      using pos by (simp only: mult_right_mono less_imp_le)
    then show ?thesis
      by (simp only: to_double_pos(1) [OF assms(1)] to_double_pos(1) [OF y] e)
  next
    assume "binade x + 1 \<le> binade y"
    then have "pow2 (binade x + 1) \<le> pow2 (binade y)" by (rule pow2_mono)
    with to_double_pos(3) [OF assms(1)] to_double_pos(2) [OF y] show ?thesis
      by linarith
  qed
qed

lemma to_double_minus: "to_double (- x) = - to_double x"
  by (simp add: to_double_def Let_def)

lemma to_double_nonneg: "0 \<le> x \<Longrightarrow> 0 \<le> to_double x"
proof (cases "x = 0")
  case True
  then show ?thesis by (simp add: to_double_def)
next
  case False
  assume "0 \<le> x"
  with False have p: "0 < x" by simp
  from to_double_pos(2) [OF p] pow2_pos [of "binade x"] show ?thesis by linarith
qed

lemma to_double_mono:
  assumes "x \<le> y"
  shows "to_double x \<le> to_double y"
proof -
  consider "0 < x" | "x \<le> 0" "0 \<le> y" | "y < 0" by linarith
  then show ?thesis
  proof cases
    case 1
    then show ?thesis using assms by (rule to_double_mono_pos)
  next
    case 2
    from 2(1) have "0 \<le> - x" by simp
    then have "0 \<le> to_double (- x)" by (rule to_double_nonneg)
    then have "to_double x \<le> 0" by (simp add: to_double_minus)
    moreover from 2(2) have "0 \<le> to_double y" by (rule to_double_nonneg)
    ultimately show ?thesis by linarith
  next
    case 3
    then have "0 < - y" by simp
    moreover from assms have "- y \<le> - x" by simp
    ultimately have "to_double (- y) \<le> to_double (- x)" by (rule to_double_mono_pos)
    then show ?thesis by (simp add: to_double_minus)
  qed
qed

text \<open>
  The APY rule and the utilization rule convert one column to a \<^verbatim>\<open>float\<close> and compare
  it with the threshold: \<^verbatim>\<open>float(latest.apy_7d) < 2.0\<close> and
  \<^verbatim>\<open>float(latest.utilization_rate) > 0.95\<close>. Both columns have four decimal places
  (\<^verbatim>\<open>DECIMAL(8, 4)\<close>, \<^verbatim>\<open>DECIMAL(5, 4)\<close>), and on such values the comparison of the
  doubles is the comparison of the exact values, which is how the two rules are
  embedded.
\<close>

lemma to_double_2: "to_double 2 = 2"
  by code_simp

lemma to_double_19999: "to_double (19999 / 10000) < 2"
  by code_simp

lemma to_double_9501: "to_double (19 / 20) < to_double (9501 / 10000)"
  by code_simp

lemma float_less_2_scale4:
  "to_double (of_int k / 10000) < to_double 2 \<longleftrightarrow> (of_int k / 10000 :: rat) < 2"
proof
  assume l: "to_double (of_int k / 10000) < to_double 2"
  show "(of_int k / 10000 :: rat) < 2"
  proof (rule ccontr)
    assume "\<not> (of_int k / 10000 :: rat) < 2"
    then have "(2 :: rat) \<le> of_int k / 10000" by simp
    then have "to_double 2 \<le> to_double (of_int k / 10000)" by (rule to_double_mono)
    with l show False by simp
  qed
next
  assume "(of_int k / 10000 :: rat) < 2"
  then have "(of_int k :: rat) < of_int 20000" by simp
  then have "k < 20000" by (simp only: of_int_less_iff)
  then have "k \<le> 19999" by simp
  then have "(of_int k :: rat) \<le> of_int 19999" by (simp only: of_int_le_iff)
  then have "(of_int k / 10000 :: rat) \<le> 19999 / 10000" by simp
  then have "to_double (of_int k / 10000) \<le> to_double (19999 / 10000)" by (rule to_double_mono)
  with to_double_19999 show "to_double (of_int k / 10000) < to_double 2"
    by (simp add: to_double_2)
qed

lemma float_greater_95_scale4:
  "to_double (95 / 100) < to_double (of_int k / 10000) \<longleftrightarrow> (95 / 100 :: rat) < of_int k / 10000"
proof
  assume l: "to_double (95 / 100) < to_double (of_int k / 10000)"
  show "(95 / 100 :: rat) < of_int k / 10000"
  proof (rule ccontr)
    assume "\<not> (95 / 100 :: rat) < of_int k / 10000"
    then have "(of_int k / 10000 :: rat) \<le> 95 / 100" by simp
    then have "to_double (of_int k / 10000) \<le> to_double (95 / 100)" by (rule to_double_mono)
    with l show False by simp
  qed
next
  assume "(95 / 100 :: rat) < of_int k / 10000"
  then have "(of_int 9500 :: rat) < of_int k" by simp
  then have "9500 < k" by (simp only: of_int_less_iff)
  then have "9501 \<le> k" by simp
  then have "(of_int 9501 :: rat) \<le> of_int k" by (simp only: of_int_le_iff)
  then have "(9501 / 10000 :: rat) \<le> of_int k / 10000" by simp
  then have "to_double (9501 / 10000) \<le> to_double (of_int k / 10000)" by (rule to_double_mono)
  with to_double_9501 show "to_double (95 / 100) < to_double (of_int k / 10000)"
    by simp
qed

lemma apy_comparison_scale4:
  "to_double (of_int k / 10000) < to_double (APY_MIN_THRESHOLD settings)
     \<longleftrightarrow> of_int k / 10000 < APY_MIN_THRESHOLD settings"
proof -
  have "APY_MIN_THRESHOLD settings = 2" by (simp add: settings_def)
  then show ?thesis by (simp only: float_less_2_scale4)
qed

lemma utilization_comparison_scale4:
  "to_double (UTILIZATION_MAX_THRESHOLD settings) < to_double (of_int k / 10000)
     \<longleftrightarrow> UTILIZATION_MAX_THRESHOLD settings < of_int k / 10000"
proof -
  have "UTILIZATION_MAX_THRESHOLD settings = 95 / 100" by (simp add: settings_def)
  then show ?thesis by (simp only: float_greater_95_scale4)
qed

text \<open>The doubles that the example tables need.\<close>

lemma to_double_threshold:
  "to_double (1 / 5) = 3602879701896397 / 18014398509481984"
  by code_simp

lemma to_double_100000000: "to_double 100000000 = 100000000"
  by code_simp

lemma to_double_50000000: "to_double 50000000 = 50000000"
  by code_simp

lemma to_double_85000000: "to_double 85000000 = 85000000"
  by code_simp

lemma to_double_15000000: "to_double 15000000 = 15000000"
  by code_simp

lemma to_double_half: "to_double (1 / 2) = 1 / 2"
  by code_simp

lemma to_double_3_20: "to_double (3 / 20) = 5404319552844595 / 36028797018963968"
  by code_simp

lemma to_double_fifth_old: "to_double (299999 / 20) = 4123154860264653 / 274877906944"
  by code_simp

lemma to_double_fifth_latest: "to_double (299999 / 25) = 1649261944105861 / 137438953472"
  by code_simp

lemma to_double_fifth_drop:
  "to_double (to_double (to_double (299999 / 20) - to_double (299999 / 25))
                / to_double (299999 / 20))
     = 7205759403792797 / 36028797018963968"
  by code_simp

lemmas to_double_values = to_double_threshold to_double_100000000 to_double_50000000
  to_double_85000000 to_double_15000000 to_double_half to_double_3_20

section \<open>Auxiliary facts about lists and queries\<close>

lemma find_None_iff_ball: "find P xs = None \<longleftrightarrow> (\<forall>x\<in>set xs. \<not> P x)"
  by (induction xs) auto

lemma find_SomeD: "find P xs = Some x \<Longrightarrow> x \<in> set xs \<and> P x"
  by (induction xs) (auto split: if_splits)

lemma case_find_exists:
  "(case find P xs of None \<Rightarrow> a | Some x \<Rightarrow> b) = (if \<exists>x\<in>set xs. P x then b else a)"
  by (induction xs) auto

section \<open>Status projection\<close>

text \<open>
  Claim C6. The status of a protocol is \<^verbatim>\<open>critical\<close> if the protocol has an open
  (unresolved) alert of severity critical, else \<^verbatim>\<open>warning\<close> if it has an open alert of
  severity warning, else \<^verbatim>\<open>healthy\<close>; a protocol all of whose alerts are resolved is
  healthy; and the result is a function of the alert table alone: replacing the
  snapshot table does not change it.
\<close>

theorem get_protocol_status_projection:
  "get_protocol_status db name =
     (if \<exists>a\<in>set (alerts db). protocol_name a = name \<and> severity a = ''critical''
           \<and> resolved_at a = None then ''critical''
      else if \<exists>a\<in>set (alerts db). protocol_name a = name \<and> severity a = ''warning''
           \<and> resolved_at a = None then ''warning''
      else ''healthy'')
   \<and> ((\<forall>a\<in>set (alerts db). protocol_name a = name \<longrightarrow> resolved_at a \<noteq> None)
        \<longrightarrow> get_protocol_status db name = ''healthy'')
   \<and> get_protocol_status (db \<lparr> snapshots := ss \<rparr>) name = get_protocol_status db name"
  unfolding get_protocol_status_def case_find_exists
  by (simp del: One_nat_def) blast

text \<open>
  On the example table: \<^verbatim>\<open>felix\<close>, with one open critical and one open warning alert,
  is critical; \<^verbatim>\<open>hlp\<close>, with only a resolved alert, is healthy.
\<close>

theorem get_protocol_status_projection_witness:
  "get_protocol_status status_db_mixed ''felix'' = ''critical''
   \<and> get_protocol_status status_db_mixed ''hlp'' = ''healthy''"
proof -
  have resolved: "\<forall>a\<in>set (alerts status_db_mixed).
      protocol_name a = ''hlp'' \<longrightarrow> resolved_at a \<noteq> None"
    by (simp add: status_db_mixed_def)
  have healthy: "get_protocol_status status_db_mixed ''hlp'' = ''healthy''"
    by (rule get_protocol_status_projection [of status_db_mixed "''hlp''", THEN conjunct2,
          THEN conjunct1, THEN mp, OF resolved])
  have critical: "get_protocol_status status_db_mixed ''felix'' = ''critical''"
    using get_protocol_status_projection [of status_db_mixed "''felix''", THEN conjunct1]
    by (simp add: status_db_mixed_def)
  from critical healthy show ?thesis by (rule conjI)
qed

section \<open>Alert resolution\<close>

lemma find_map_same_key:
  "(\<And>x. P (f x) = P x) \<Longrightarrow> find P (map f xs) = map_option f (find P xs)"
  by (induction xs) auto

lemma find_distinct_key:
  "distinct (map k xs) \<Longrightarrow> a \<in> set xs \<Longrightarrow> find (\<lambda>x. k x = k a) xs = Some a"
proof (induction xs)
  case Nil
  then show ?case by simp
next
  case (Cons x xs)
  show ?case
  proof (cases "x = a")
    case True
    then show ?thesis by simp
  next
    case False
    with Cons.prems have "a \<in> set xs" by simp
    then have "k a \<in> set (map k xs)" by simp
    with Cons.prems have "k x \<noteq> k a" by auto
    with Cons \<open>a \<in> set xs\<close> show ?thesis by simp
  qed
qed

lemma resolve_alert_not_found:
  "find (\<lambda>a. alert_id a = aid) (alerts db) = None
     \<Longrightarrow> resolve_alert now db aid = (db, Inl (HTTPException 404 ''Alert not found''))"
  by (simp add: resolve_alert_def)

lemma resolve_alert_conflict:
  "find (\<lambda>a. alert_id a = aid) (alerts db) = Some alert \<Longrightarrow> resolved_at alert = Some t
     \<Longrightarrow> resolve_alert now db aid = (db, Inl (HTTPException 400 ''Alert already resolved''))"
  by (simp add: resolve_alert_def)

lemma resolve_alert_open:
  "find (\<lambda>a. alert_id a = aid) (alerts db) = Some alert \<Longrightarrow> resolved_at alert = None
     \<Longrightarrow> resolve_alert now db aid =
           (db \<lparr> alerts := map (\<lambda>a. if alert_id a = aid then a \<lparr> resolved_at := Some now \<rparr>
                                   else a) (alerts db) \<rparr>,
            AlertResponse (alert \<lparr> resolved_at := Some now \<rparr>))"
  by (simp add: resolve_alert_def)

lemma resolve_alert_find_after:
  assumes "find (\<lambda>a. alert_id a = aid) (alerts db) = Some alert" "resolved_at alert = None"
  shows "find (\<lambda>a. alert_id a = aid) (alerts (fst (resolve_alert now db aid)))
           = Some (alert \<lparr> resolved_at := Some now \<rparr>)"
proof -
  let ?f = "\<lambda>a. if alert_id a = aid then a \<lparr> resolved_at := Some now \<rparr> else a"
  have "find (\<lambda>a. alert_id a = aid) (map ?f (alerts db))
          = map_option ?f (find (\<lambda>a. alert_id a = aid) (alerts db))"
    by (rule find_map_same_key) simp
  moreover have "alert_id alert = aid"
    using assms(1) by (auto dest: find_SomeD)
  ultimately show ?thesis
    using assms by (simp add: resolve_alert_open)
qed

lemma in_image_fixed: "a \<in> A \<Longrightarrow> f a = a \<Longrightarrow> a \<in> f ` A"
  by (metis image_eqI)

lemma resolve_alert_keeps_resolved:
  assumes "alert_ids_distinct db" "a \<in> set (alerts db)" "resolved_at a \<noteq> None"
  shows "a \<in> set (alerts (fst (resolve_alert now db aid)))"
proof (cases "find (\<lambda>x. alert_id x = aid) (alerts db)")
  case None
  then show ?thesis
    using assms(2) by (simp add: resolve_alert_not_found)
next
  case (Some alert)
  show ?thesis
  proof (cases "resolved_at alert")
    case (Some t)
    with \<open>find (\<lambda>x. alert_id x = aid) (alerts db) = Some alert\<close> show ?thesis
      using assms(2) by (simp add: resolve_alert_conflict)
  next
    case None
    let ?f = "\<lambda>a. if alert_id a = aid then a \<lparr> resolved_at := Some now \<rparr> else a"
    have "alert_id a \<noteq> aid"
    proof
      assume "alert_id a = aid"
      with assms(1,2) have "find (\<lambda>x. alert_id x = aid) (alerts db) = Some a"
        using find_distinct_key [of alert_id "alerts db" a] by (simp add: alert_ids_distinct_def)
      with \<open>find (\<lambda>x. alert_id x = aid) (alerts db) = Some alert\<close> None assms(3)
      show False by simp
    qed
    then have "?f a = a" by simp
    with assms(2) have "a \<in> ?f ` set (alerts db)"
      by (rule in_image_fixed)
    then have "a \<in> set (map ?f (alerts db))"
      by (simp only: set_map)
    then show ?thesis
      by (simp add: resolve_alert_open [OF \<open>find (\<lambda>x. alert_id x = aid) (alerts db) = Some alert\<close> None])
  qed
qed

lemma map_alert_id_resolve:
  "map (alert_id \<circ> (\<lambda>a. if alert_id a = aid then a \<lparr> resolved_at := Some now \<rparr> else a)) xs
     = map alert_id xs"
  by (induction xs) auto

lemma resolve_alert_ids_distinct:
  "alert_ids_distinct db \<Longrightarrow> alert_ids_distinct (fst (resolve_alert now db aid))"
  by (auto simp: resolve_alert_def alert_ids_distinct_def map_alert_id_resolve
           split: option.splits)

section \<open>Storing snapshots\<close>

lemma list_ex_rows_at:
  "list_ex (\<lambda>s. snapshot_protocol_name s = name \<and> timestamp s = ts) (snapshots db)
     \<longleftrightarrow> rows_at db name ts \<noteq> []"
  by (simp add: rows_at_def list_ex_iff filter_empty_conv)

lemma store_snapshot_conflict:
  "rows_at db name ts \<noteq> [] \<Longrightarrow> store_snapshot db name ts tvl apy util = (db, True)"
  by (simp add: store_snapshot_def store_snapshot_try_def list_ex_rows_at)

lemma store_snapshot_fresh:
  "rows_at db name ts = [] \<Longrightarrow>
     store_snapshot db name ts tvl apy util =
       (db \<lparr> snapshots := snapshots db @
            [\<lparr> snapshot_id = next_id (map snapshot_id (snapshots db)),
               snapshot_protocol_name = name, timestamp = ts,
               tvl_usd = decimal_if tvl, apy_7d = decimal_if apy,
               utilization_rate = decimal_if util \<rparr>] \<rparr>,
        tvl \<noteq> None)"
  by (simp add: store_snapshot_def store_snapshot_try_def list_ex_rows_at Let_def
           split: option.splits)

lemma rows_at_after_store:
  "rows_at (fst (store_snapshot db name ts tvl apy util)) name ts =
     (if rows_at db name ts = [] 
      then [\<lparr> snapshot_id = next_id (map snapshot_id (snapshots db)),
               snapshot_protocol_name = name, timestamp = ts,
               tvl_usd = decimal_if tvl, apy_7d = decimal_if apy,
               utilization_rate = decimal_if util \<rparr>]
      else rows_at db name ts)"
proof (cases "rows_at db name ts = []")
  case True
  then show ?thesis
    by (simp add: store_snapshot_fresh) (simp add: rows_at_def)
next
  case False
  then show ?thesis by (simp add: store_snapshot_conflict)
qed

lemma rows_at_other_after_store:
  "(name', ts') \<noteq> (name, ts) \<Longrightarrow>
     rows_at (fst (store_snapshot db name ts tvl apy util)) name' ts' = rows_at db name' ts'"
  by (cases "rows_at db name ts = []")
     (auto simp: store_snapshot_fresh store_snapshot_conflict rows_at_def)

lemma alerts_after_store:
  "alerts (fst (store_snapshot db name ts tvl apy util)) = alerts db"
  by (cases "rows_at db name ts = []")
     (simp_all add: store_snapshot_fresh store_snapshot_conflict)

lemma distinct_map_filter_key:
  "distinct (map k xs) \<Longrightarrow> length (filter (\<lambda>x. k x = v) xs) \<le> 1"
proof (induction xs)
  case Nil
  then show ?case by simp
next
  case (Cons x xs)
  show ?case
  proof (cases "k x = v")
    case True
    with Cons.prems have "v \<notin> k ` set xs" by auto
    then have "filter (\<lambda>x. k x = v) xs = []"
      by (auto simp: filter_empty_conv)
    with True show ?thesis by simp
  next
    case False
    with Cons show ?thesis by simp
  qed
qed

lemma uq_rows_at_le_one: "uq_protocol_timestamp db \<Longrightarrow> length (rows_at db name ts) \<le> 1"
proof -
  assume "uq_protocol_timestamp db"
  then have "length (filter (\<lambda>s. (snapshot_protocol_name s, timestamp s) = (name, ts))
                      (snapshots db)) \<le> 1"
    unfolding uq_protocol_timestamp_def by (rule distinct_map_filter_key)
  then show ?thesis by (simp add: rows_at_def)
qed

lemma uq_after_store:
  assumes "uq_protocol_timestamp db"
  shows "uq_protocol_timestamp (fst (store_snapshot db name ts tvl apy util))"
proof (cases "rows_at db name ts = []")
  case True
  then have "(name, ts) \<notin> (\<lambda>s. (snapshot_protocol_name s, timestamp s)) ` set (snapshots db)"
    by (auto simp: rows_at_def filter_empty_conv)
  with assms True show ?thesis
    by (simp add: store_snapshot_fresh uq_protocol_timestamp_def)
next
  case False
  with assms show ?thesis by (simp add: store_snapshot_conflict)
qed

text \<open>
  Claim C5. Storing a snapshot is idempotent on the key (protocol, timestamp): a second
  store for the same key, whatever its metric values, is reported as a success and
  leaves both tables as they were; a store whose key is already present is a success
  that changes nothing; and on a table that satisfies its uniqueness constraint, after
  the two stores exactly one row has the key and the constraint still holds.
\<close>

theorem store_snapshot_idempotent:
  "store_snapshot (fst (store_snapshot db name ts tvl apy util)) name ts tvl' apy' util'
     = (fst (store_snapshot db name ts tvl apy util), True)
   \<and> (rows_at db name ts \<noteq> [] \<longrightarrow> store_snapshot db name ts tvl apy util = (db, True))
   \<and> (uq_protocol_timestamp db \<longrightarrow>
        length (rows_at (fst (store_snapshot (fst (store_snapshot db name ts tvl apy util))
                                name ts tvl' apy' util')) name ts) = 1
        \<and> uq_protocol_timestamp (fst (store_snapshot db name ts tvl apy util)))"
proof -
  let ?db1 = "fst (store_snapshot db name ts tvl apy util)"
  have present: "rows_at ?db1 name ts \<noteq> []"
    by (simp add: rows_at_after_store)
  then have second: "store_snapshot ?db1 name ts tvl' apy' util' = (?db1, True)"
    by (rule store_snapshot_conflict)
  have one: "length (rows_at ?db1 name ts) = 1" if "uq_protocol_timestamp db"
  proof -
    from that have "uq_protocol_timestamp ?db1" by (rule uq_after_store)
    then have "length (rows_at ?db1 name ts) \<le> 1" by (rule uq_rows_at_le_one)
    moreover from present have "0 < length (rows_at ?db1 name ts)" by simp
    ultimately show ?thesis by linarith
  qed
  show ?thesis
    using second one by (simp add: store_snapshot_conflict uq_after_store)
qed

text \<open>
  On the empty tables: \<^verbatim>\<open>felix\<close> is stored at instant 1000 and stored again at the same
  instant with other values; one row remains, the one of the first store.
\<close>

theorem store_snapshot_idempotent_witness:
  "length (rows_at (fst (store_snapshot (fst (store_snapshot empty_db ''felix'' 1000
                      (Some 85000000) (Some 8) (Some (4 / 5))))
                      ''felix'' 1000 (Some 90000000) (Some 9) None)) ''felix'' 1000) = 1
   \<and> store_snapshot (fst (store_snapshot empty_db ''felix'' 1000
                      (Some 85000000) (Some 8) (Some (4 / 5))))
                      ''felix'' 1000 (Some 90000000) (Some 9) None
       = (fst (store_snapshot empty_db ''felix'' 1000 (Some 85000000) (Some 8) (Some (4 / 5))),
          True)
   \<and> snapshots (fst (store_snapshot empty_db ''felix'' 1000
                      (Some 85000000) (Some 8) (Some (4 / 5))))
       = [\<lparr> snapshot_id = 1, snapshot_protocol_name = ''felix'', timestamp = 1000,
            tvl_usd = Some 85000000, apy_7d = Some 8, utilization_rate = Some (4 / 5) \<rparr>]"
proof -
  have uq: "uq_protocol_timestamp empty_db"
    by (simp add: uq_protocol_timestamp_def empty_db_def)
  note t = store_snapshot_idempotent [of empty_db "''felix''" 1000 "Some 85000000" "Some 8"
      "Some (4 / 5)" "Some 90000000" "Some 9" None]
  have a: "length (rows_at (fst (store_snapshot (fst (store_snapshot empty_db ''felix'' 1000
                      (Some 85000000) (Some 8) (Some (4 / 5))))
                      ''felix'' 1000 (Some 90000000) (Some 9) None)) ''felix'' 1000) = 1"
    by (rule t [THEN conjunct2, THEN conjunct2, THEN mp, OF uq, THEN conjunct1])
  have c: "snapshots (fst (store_snapshot empty_db ''felix'' 1000
                      (Some 85000000) (Some 8) (Some (4 / 5))))
       = [\<lparr> snapshot_id = 1, snapshot_protocol_name = ''felix'', timestamp = 1000,
            tvl_usd = Some 85000000, apy_7d = Some 8, utilization_rate = Some (4 / 5) \<rparr>]"
    by (simp add: store_snapshot_def store_snapshot_try_def empty_db_def decimal_if_def
          next_id_def)
  from a t [THEN conjunct1] c show ?thesis by (intro conjI)
qed

section \<open>The detector: rules, deduplication, repeated passes\<close>

lemma check_tvl_drop_fire:
  "check_tvl_drop cfg now db p
     = fire now db p ''tvl_drop'' ''critical'' (tvl_drop_candidate cfg now db p)"
  by (simp add: check_tvl_drop_def tvl_drop_candidate_def fire_def Let_def
           split: option.splits)

lemma check_apy_low_fire:
  "check_apy_low cfg now db p
     = fire now db p ''apy_low'' ''warning'' (apy_low_candidate cfg db p)"
  by (simp add: check_apy_low_def apy_low_candidate_def fire_def split: option.splits)

lemma check_utilization_high_fire:
  "check_utilization_high cfg now db p
     = fire now db p ''utilization_high'' ''warning'' (utilization_high_candidate cfg db p)"
  by (simp add: check_utilization_high_def utilization_high_candidate_def fire_def
           split: option.splits)

lemma latest_snapshot_cong:
  assumes "snapshots db' = snapshots db"
  shows "latest_snapshot db' = latest_snapshot db"
    and "latest_snapshot_until db' = latest_snapshot_until db"
  using assms by (simp_all add: fun_eq_iff latest_snapshot_def latest_snapshot_until_def)

lemma candidates_snapshots:
  assumes "snapshots db' = snapshots db"
  shows "tvl_drop_candidate cfg now db' p = tvl_drop_candidate cfg now db p"
    and "apy_low_candidate cfg db' p = apy_low_candidate cfg db p"
    and "utilization_high_candidate cfg db' p = utilization_high_candidate cfg db p"
  unfolding tvl_drop_candidate_def apy_low_candidate_def utilization_high_candidate_def
    latest_snapshot_cong [OF assms]
  by (rule refl)+

lemma extends_refl: "extends db db"
  by (simp add: extends_def)

lemma extends_trans: "extends a b \<Longrightarrow> extends b c \<Longrightarrow> extends a c"
  unfolding extends_def
  by (metis length_take min.absorb2 nat_le_linear take_all take_take)

lemma extends_append:
  "extends db db' \<longleftrightarrow> snapshots db' = snapshots db \<and> (\<exists>new. alerts db' = alerts db @ new)"
  unfolding extends_def
  by (metis append_eq_conv_conj append_take_drop_id)

lemma find_append:
  "find P (xs @ ys) = (case find P xs of None \<Rightarrow> find P ys | Some x \<Rightarrow> Some x)"
  by (induction xs) auto

lemma append_alert_conv:
  "append_alert acc r = acc @ (case r of None \<Rightarrow> [] | Some a \<Rightarrow> [a])"
  by (simp add: append_alert_def split: option.splits)

lemma create_alert_existing:
  "open_alert db name ty = Some existing \<Longrightarrow> create_alert now db name ty sev msg = (db, None)"
  by (simp add: create_alert_def Let_def)

lemma create_alert_new:
  "open_alert db name ty = None \<Longrightarrow>
     create_alert now db name ty sev msg =
       (db \<lparr> alerts := alerts db @
            [\<lparr> alert_id = next_id (map alert_id (alerts db)), protocol_name = name,
               alert_type = ty, severity = sev, message = Some msg, triggered_at = now,
               resolved_at = None \<rparr>] \<rparr>,
        Some \<lparr> alert_id = next_id (map alert_id (alerts db)), protocol_name = name,
               alert_type = ty, severity = sev, message = Some msg, triggered_at = now,
               resolved_at = None \<rparr>)"
  by (simp add: create_alert_def Let_def)

lemma fire_snapshots: "snapshots (fst (fire now db name ty sev c)) = snapshots db"
  by (simp add: fire_def create_alert_def Let_def split: option.splits)

lemma fire_alerts:
  "alerts (fst (fire now db name ty sev c))
     = append_alert (alerts db) (snd (fire now db name ty sev c))"
  by (simp add: fire_def create_alert_def Let_def append_alert_def split: option.splits)

lemma fire_extends: "extends db (fst (fire now db name ty sev c))"
  by (simp add: extends_append fire_snapshots fire_alerts append_alert_conv)

lemma open_alert_extends:
  "open_alert db name ty \<noteq> None \<Longrightarrow> extends db db' \<Longrightarrow> open_alert db' name ty \<noteq> None"
  by (auto simp: extends_append open_alert_def find_append)

lemma open_alert_after_fire:
  "c \<noteq> None \<Longrightarrow> open_alert (fst (fire now db name ty sev c)) name ty \<noteq> None"
  by (auto simp: fire_def create_alert_def Let_def open_alert_def find_append split: option.splits)

lemma fire_quiet:
  "c = None \<or> open_alert db name ty \<noteq> None \<Longrightarrow> fire now db name ty sev c = (db, None)"
  by (auto simp: fire_def create_alert_def Let_def split: option.splits)

lemma fire_quietD:
  assumes "fire now db name ty sev c = (db, None)"
  shows "c = None \<or> open_alert db name ty \<noteq> None"
proof (rule ccontr)
  assume "\<not> (c = None \<or> open_alert db name ty \<noteq> None)"
  then obtain msg where "c = Some msg" "open_alert db name ty = None" by auto
  then have "snd (fire now db name ty sev c) \<noteq> None"
    by (simp add: fire_def create_alert_new)
  with assms show False by simp
qed

lemma fire_again:
  "fire now' (fst (fire now db name ty sev c)) name ty sev c
     = (fst (fire now db name ty sev c), None)"
  by (rule fire_quiet) (use open_alert_after_fire in blast)

lemma fire_quiet_mono:
  assumes "fire now db name ty sev c = (db, None)" "extends db db'"
  shows "fire now db' name ty sev c = (db', None)"
proof (rule fire_quiet)
  from fire_quietD [OF assms(1)] show "c = None \<or> open_alert db' name ty \<noteq> None"
  proof
    assume "c = None"
    then show ?thesis by (rule disjI1)
  next
    assume "open_alert db name ty \<noteq> None"
    then have "open_alert db' name ty \<noteq> None"
      using assms(2) by (rule open_alert_extends)
    then show ?thesis by (rule disjI2)
  qed
qed

lemma fire_unique:
  assumes "open_alerts_unique db"
  shows "open_alerts_unique (fst (fire now db name ty sev c))"
proof (cases "c = None \<or> open_alert db name ty \<noteq> None")
  case True
  then show ?thesis using assms by (simp add: fire_quiet)
next
  case False
  then obtain msg where c: "c = Some msg" and none: "open_alert db name ty = None" by auto
  from none have "\<forall>a\<in>set (alerts db).
      \<not> (protocol_name a = name \<and> alert_type a = ty \<and> resolved_at a = None)"
    by (simp add: open_alert_def find_None_iff_ball)
  then have "(name, ty) \<notin> (\<lambda>a. (protocol_name a, alert_type a)) `
               {a \<in> set (alerts db). resolved_at a = None}"
    by auto
  with assms show ?thesis
    by (simp add: c fire_def create_alert_new [OF none] open_alerts_unique_def)
qed

lemma check_snapshots:
  "snapshots (fst (check_tvl_drop cfg now db p)) = snapshots db"
  "snapshots (fst (check_apy_low cfg now db p)) = snapshots db"
  "snapshots (fst (check_utilization_high cfg now db p)) = snapshots db"
  by (simp_all add: check_tvl_drop_fire check_apy_low_fire check_utilization_high_fire
        fire_snapshots)

lemma check_alerts:
  "alerts (fst (check_tvl_drop cfg now db p))
     = append_alert (alerts db) (snd (check_tvl_drop cfg now db p))"
  "alerts (fst (check_apy_low cfg now db p))
     = append_alert (alerts db) (snd (check_apy_low cfg now db p))"
  "alerts (fst (check_utilization_high cfg now db p))
     = append_alert (alerts db) (snd (check_utilization_high cfg now db p))"
  by (simp_all only: check_tvl_drop_fire check_apy_low_fire check_utilization_high_fire
        fire_alerts)

lemma check_extends:
  "extends db (fst (check_tvl_drop cfg now db p))"
  "extends db (fst (check_apy_low cfg now db p))"
  "extends db (fst (check_utilization_high cfg now db p))"
  by (simp_all only: check_tvl_drop_fire check_apy_low_fire check_utilization_high_fire
        fire_extends)

lemma check_again:
  "check_tvl_drop cfg now (fst (check_tvl_drop cfg now db p)) p
     = (fst (check_tvl_drop cfg now db p), None)"
  "check_apy_low cfg now (fst (check_apy_low cfg now db p)) p
     = (fst (check_apy_low cfg now db p), None)"
  "check_utilization_high cfg now (fst (check_utilization_high cfg now db p)) p
     = (fst (check_utilization_high cfg now db p), None)"
proof -
  let ?d1 = "fst (fire now db p ''tvl_drop'' ''critical'' (tvl_drop_candidate cfg now db p))"
  let ?d2 = "fst (fire now db p ''apy_low'' ''warning'' (apy_low_candidate cfg db p))"
  let ?d3 = "fst (fire now db p ''utilization_high'' ''warning''
                   (utilization_high_candidate cfg db p))"
  have "tvl_drop_candidate cfg now ?d1 p = tvl_drop_candidate cfg now db p"
    by (rule candidates_snapshots) (rule fire_snapshots)
  then show "check_tvl_drop cfg now (fst (check_tvl_drop cfg now db p)) p
     = (fst (check_tvl_drop cfg now db p), None)"
    by (simp only: check_tvl_drop_fire fire_again)
  have "apy_low_candidate cfg ?d2 p = apy_low_candidate cfg db p"
    by (rule candidates_snapshots) (rule fire_snapshots)
  then show "check_apy_low cfg now (fst (check_apy_low cfg now db p)) p
     = (fst (check_apy_low cfg now db p), None)"
    by (simp only: check_apy_low_fire fire_again)
  have "utilization_high_candidate cfg ?d3 p = utilization_high_candidate cfg db p"
    by (rule candidates_snapshots) (rule fire_snapshots)
  then show "check_utilization_high cfg now (fst (check_utilization_high cfg now db p)) p
     = (fst (check_utilization_high cfg now db p), None)"
    by (simp only: check_utilization_high_fire fire_again)
qed

lemma check_quiet_mono:
  assumes "extends db db'"
  shows "check_tvl_drop cfg now db p = (db, None)
           \<Longrightarrow> check_tvl_drop cfg now db' p = (db', None)"
    and "check_apy_low cfg now db p = (db, None)
           \<Longrightarrow> check_apy_low cfg now db' p = (db', None)"
    and "check_utilization_high cfg now db p = (db, None)
           \<Longrightarrow> check_utilization_high cfg now db' p = (db', None)"
proof -
  from assms have s: "snapshots db' = snapshots db" by (simp add: extends_def)
  show "check_tvl_drop cfg now db p = (db, None)
           \<Longrightarrow> check_tvl_drop cfg now db' p = (db', None)"
    unfolding check_tvl_drop_fire candidates_snapshots [OF s]
    by (rule fire_quiet_mono [OF _ assms])
  show "check_apy_low cfg now db p = (db, None)
           \<Longrightarrow> check_apy_low cfg now db' p = (db', None)"
    unfolding check_apy_low_fire candidates_snapshots [OF s]
    by (rule fire_quiet_mono [OF _ assms])
  show "check_utilization_high cfg now db p = (db, None)
           \<Longrightarrow> check_utilization_high cfg now db' p = (db', None)"
    unfolding check_utilization_high_fire candidates_snapshots [OF s]
    by (rule fire_quiet_mono [OF _ assms])
qed

lemma check_unique:
  assumes "open_alerts_unique db"
  shows "open_alerts_unique (fst (check_tvl_drop cfg now db p))"
    and "open_alerts_unique (fst (check_apy_low cfg now db p))"
    and "open_alerts_unique (fst (check_utilization_high cfg now db p))"
  using assms
  by (simp_all only: check_tvl_drop_fire check_apy_low_fire check_utilization_high_fire
        fire_unique)

lemma detect_protocol_unfold:
  "detect_protocol cfg now p (db, acc) =
     (let r1 = check_tvl_drop cfg now db p;
          r2 = check_apy_low cfg now (fst r1) p;
          r3 = check_utilization_high cfg now (fst r2) p;
          acc2 = append_alert (append_alert acc (snd r1)) (snd r2)
      in if p \<in> LENDING_PROTOCOLS then (fst r3, append_alert acc2 (snd r3))
         else (fst r2, acc2))"
  by (simp add: detect_protocol_def Let_def split: prod.splits)

lemma settled_mono:
  "settled cfg now db p \<Longrightarrow> extends db db' \<Longrightarrow> settled cfg now db' p"
  unfolding settled_def
  by (auto intro: check_quiet_mono split: if_splits)

lemma detect_protocol_settled:
  "settled cfg now db p \<Longrightarrow> detect_protocol cfg now p (db, acc) = (db, acc)"
  by (simp add: detect_protocol_unfold settled_def Let_def append_alert_def split: if_splits)

lemma detect_protocol_extends:
  "extends db (fst (detect_protocol cfg now p (db, acc)))"
proof -
  let ?d1 = "fst (check_tvl_drop cfg now db p)"
  let ?d2 = "fst (check_apy_low cfg now ?d1 p)"
  let ?d3 = "fst (check_utilization_high cfg now ?d2 p)"
  have e2: "extends db ?d2"
    by (rule extends_trans [OF check_extends(1) check_extends(2)])
  then have e3: "extends db ?d3"
    by (rule extends_trans [OF _ check_extends(3)])
  from e2 e3 show ?thesis
    by (simp add: detect_protocol_unfold Let_def)
qed

lemma detect_protocol_new:
  "\<exists>new. alerts (fst (detect_protocol cfg now p (db, acc))) = alerts db @ new
         \<and> snd (detect_protocol cfg now p (db, acc)) = acc @ new"
  by (simp add: detect_protocol_unfold Let_def check_alerts append_alert_conv)

lemma detect_protocol_settles:
  "settled cfg now (fst (detect_protocol cfg now p (db, acc))) p"
proof -
  let ?d1 = "fst (check_tvl_drop cfg now db p)"
  let ?d2 = "fst (check_apy_low cfg now ?d1 p)"
  let ?d3 = "fst (check_utilization_high cfg now ?d2 p)"
  have e12: "extends ?d1 ?d2" and e23: "extends ?d2 ?d3"
    by (rule check_extends)+
  have q1: "check_tvl_drop cfg now ?d1 p = (?d1, None)" by (rule check_again)
  have q12: "check_tvl_drop cfg now ?d2 p = (?d2, None)"
    by (rule check_quiet_mono(1) [OF e12 q1])
  have q22: "check_apy_low cfg now ?d2 p = (?d2, None)" by (rule check_again)
  have q13: "check_tvl_drop cfg now ?d3 p = (?d3, None)"
    by (rule check_quiet_mono(1) [OF e23 q12])
  have q23: "check_apy_low cfg now ?d3 p = (?d3, None)"
    by (rule check_quiet_mono(2) [OF e23 q22])
  have q33: "check_utilization_high cfg now ?d3 p = (?d3, None)" by (rule check_again)
  show ?thesis
    by (simp add: detect_protocol_unfold Let_def settled_def q12 q22 q13 q23 q33)
qed

lemma detect_protocol_unique:
  "open_alerts_unique db \<Longrightarrow> open_alerts_unique (fst (detect_protocol cfg now p (db, acc)))"
  by (simp add: detect_protocol_unfold Let_def check_unique)

lemma detect_loop_extends:
  "extends (fst st) (fst (detect_loop cfg now ps st))"
proof (induction ps arbitrary: st)
  case Nil
  show ?case by (simp add: extends_refl)
next
  case (Cons p ps)
  have "extends (fst st) (fst (detect_protocol cfg now p st))"
    using detect_protocol_extends [of "fst st" cfg now p "snd st"] by simp
  from this Cons.IH [of "detect_protocol cfg now p st"] show ?case
    by (simp add: extends_trans)
qed

lemma detect_loop_new:
  "\<exists>new. alerts (fst (detect_loop cfg now ps st)) = alerts (fst st) @ new
         \<and> snd (detect_loop cfg now ps st) = snd st @ new"
proof (induction ps arbitrary: st)
  case Nil
  show ?case by simp
next
  case (Cons p ps)
  obtain n1 where n1: "alerts (fst (detect_protocol cfg now p st)) = alerts (fst st) @ n1"
      "snd (detect_protocol cfg now p st) = snd st @ n1"
    using detect_protocol_new [of cfg now p "fst st" "snd st"] by auto
  obtain n2 where n2: "alerts (fst (detect_loop cfg now ps (detect_protocol cfg now p st)))
        = alerts (fst (detect_protocol cfg now p st)) @ n2"
      "snd (detect_loop cfg now ps (detect_protocol cfg now p st))
        = snd (detect_protocol cfg now p st) @ n2"
    using Cons.IH [of "detect_protocol cfg now p st"] by auto
  show ?case
    by (rule exI [of _ "n1 @ n2"]) (simp add: n1 n2)
qed

lemma detect_loop_settles:
  "p \<in> set ps \<Longrightarrow> settled cfg now (fst (detect_loop cfg now ps st)) p"
proof (induction ps arbitrary: st)
  case Nil
  then show ?case by simp
next
  case (Cons q ps)
  show ?case
  proof (cases "p = q")
    case True
    have "settled cfg now (fst (detect_protocol cfg now p st)) p"
      using detect_protocol_settles [of cfg now p "fst st" "snd st"] by simp
    moreover have "extends (fst (detect_protocol cfg now p st))
        (fst (detect_loop cfg now ps (detect_protocol cfg now p st)))"
      by (rule detect_loop_extends)
    ultimately show ?thesis
      using True by (simp add: settled_mono)
  next
    case False
    with Cons.prems have "p \<in> set ps" by simp
    then show ?thesis by (simp add: Cons.IH)
  qed
qed

lemma detect_loop_settled:
  "(\<And>p. p \<in> set ps \<Longrightarrow> settled cfg now (fst st) p) \<Longrightarrow> detect_loop cfg now ps st = st"
proof (induction ps arbitrary: st)
  case Nil
  show ?case by simp
next
  case (Cons q ps)
  have "settled cfg now (fst st) q" by (rule Cons.prems) simp
  then have "detect_protocol cfg now q st = st"
    using detect_protocol_settled [of cfg now "fst st" q "snd st"] by simp
  moreover have "detect_loop cfg now ps st = st"
    by (rule Cons.IH) (rule Cons.prems, simp)
  ultimately show ?case by simp
qed

lemma detect_loop_unique:
  "open_alerts_unique (fst st) \<Longrightarrow> open_alerts_unique (fst (detect_loop cfg now ps st))"
proof (induction ps arbitrary: st)
  case Nil
  then show ?case by simp
next
  case (Cons p ps)
  from Cons.prems have "open_alerts_unique (fst (detect_protocol cfg now p st))"
    using detect_protocol_unique [of "fst st" cfg now p "snd st"] by simp
  then show ?case by (simp add: Cons.IH)
qed

lemma get_active_protocols_snapshots:
  "snapshots db' = snapshots db \<Longrightarrow> get_active_protocols now db' = get_active_protocols now db"
  by (simp add: get_active_protocols_def)

lemma detect_all_snapshots: "snapshots (fst (detect_all cfg now db)) = snapshots db"
  using detect_loop_extends [of "(db, [])" cfg now "get_active_protocols now db"]
  by (simp add: detect_all_def extends_def)

lemma detect_all_alerts:
  "alerts (fst (detect_all cfg now db)) = alerts db @ snd (detect_all cfg now db)"
  using detect_loop_new [of cfg now "get_active_protocols now db" "(db, [])"]
  by (auto simp: detect_all_def)

lemma detect_all_again:
  "detect_all cfg now (fst (detect_all cfg now db)) = (fst (detect_all cfg now db), [])"
proof -
  let ?ps = "get_active_protocols now db"
  let ?db1 = "fst (detect_all cfg now db)"
  have ps: "get_active_protocols now ?db1 = ?ps"
    by (rule get_active_protocols_snapshots) (rule detect_all_snapshots)
  have "detect_loop cfg now ?ps (?db1, []) = (?db1, [])"
  proof (rule detect_loop_settled)
    fix p assume "p \<in> set ?ps"
    then have "settled cfg now (fst (detect_loop cfg now ?ps (db, []))) p"
      by (rule detect_loop_settles)
    then show "settled cfg now (fst (?db1, [])) p"
      by (simp add: detect_all_def)
  qed
  then show ?thesis
    by (simp add: detect_all_def [of cfg now ?db1] ps)
qed

text \<open>
  A pass at a later instant. The instant enters a pass in two places: the protocols of
  the pass are those with a snapshot in the last 48 hours, and the TVL-drop rule takes
  its old snapshot at or before the lookback instant. When no snapshot lies between the
  two lookback instants, the rule finds the same old snapshot.
\<close>

lemma fire_quiet_now:
  "fire now db name ty sev c = (db, None) \<Longrightarrow> fire now' db name ty sev c = (db, None)"
  by (rule fire_quiet) (erule fire_quietD)

lemma latest_snapshot_until_later:
  assumes "\<forall>s\<in>set (snapshots db). \<not> (lb < timestamp s \<and> timestamp s \<le> lb')" and "lb \<le> lb'"
  shows "latest_snapshot_until db p lb' = latest_snapshot_until db p lb"
proof -
  have "filter (\<lambda>s. snapshot_protocol_name s = p \<and> timestamp s \<le> lb') (snapshots db)
      = filter (\<lambda>s. snapshot_protocol_name s = p \<and> timestamp s \<le> lb) (snapshots db)"
  proof (rule filter_cong [OF refl])
    fix s assume "s \<in> set (snapshots db)"
    with assms(1) have "\<not> (lb < timestamp s \<and> timestamp s \<le> lb')" by (rule bspec)
    with assms(2) have "timestamp s \<le> lb' \<longleftrightarrow> timestamp s \<le> lb" by linarith
    then show "(snapshot_protocol_name s = p \<and> timestamp s \<le> lb')
        = (snapshot_protocol_name s = p \<and> timestamp s \<le> lb)" by simp
  qed
  then show ?thesis by (simp add: latest_snapshot_until_def)
qed

lemma tvl_drop_candidate_later:
  assumes "now \<le> now'"
    and "\<forall>s\<in>set (snapshots db).
           \<not> (now - timedelta_hours (TVL_LOOKBACK_HOURS cfg) < timestamp s
              \<and> timestamp s \<le> now' - timedelta_hours (TVL_LOOKBACK_HOURS cfg))"
  shows "tvl_drop_candidate cfg now' db p = tvl_drop_candidate cfg now db p"
proof -
  from assms(1) have le: "now - timedelta_hours (TVL_LOOKBACK_HOURS cfg)
      \<le> now' - timedelta_hours (TVL_LOOKBACK_HOURS cfg)" by simp
  show ?thesis
    unfolding tvl_drop_candidate_def latest_snapshot_until_later [OF assms(2) le]
    by (rule refl)
qed

lemma settled_later:
  assumes "settled cfg now db p" and "now \<le> now'"
    and "\<forall>s\<in>set (snapshots db).
           \<not> (now - timedelta_hours (TVL_LOOKBACK_HOURS cfg) < timestamp s
              \<and> timestamp s \<le> now' - timedelta_hours (TVL_LOOKBACK_HOURS cfg))"
  shows "settled cfg now' db p"
proof -
  from assms(1) have a1: "check_tvl_drop cfg now db p = (db, None)"
    and a2: "check_apy_low cfg now db p = (db, None)"
    and a3: "p \<in> LENDING_PROTOCOLS \<Longrightarrow> check_utilization_high cfg now db p = (db, None)"
    by (simp_all add: settled_def split: if_splits)
  have b1: "check_tvl_drop cfg now' db p = (db, None)"
    using a1 unfolding check_tvl_drop_fire tvl_drop_candidate_later [OF assms(2,3)]
    by (rule fire_quiet_now)
  have b2: "check_apy_low cfg now' db p = (db, None)"
    using a2 unfolding check_apy_low_fire by (rule fire_quiet_now)
  have b3: "check_utilization_high cfg now' db p = (db, None)" if "p \<in> LENDING_PROTOCOLS"
    using a3 [OF that] unfolding check_utilization_high_fire by (rule fire_quiet_now)
  show ?thesis
    by (simp add: settled_def b1 b2 b3)
qed

lemma get_active_protocols_later:
  assumes "now \<le> now'"
  shows "set (get_active_protocols now' db) \<subseteq> set (get_active_protocols now db)"
proof
  fix p assume "p \<in> set (get_active_protocols now' db)"
  then obtain s where s: "s \<in> set (snapshots db)" "now' - timedelta_hours 48 \<le> timestamp s"
      "p = snapshot_protocol_name s"
    by (auto simp: get_active_protocols_def Let_def)
  from s(2) assms have "now - timedelta_hours 48 \<le> timestamp s" by simp
  with s(1) have "snapshot_protocol_name s \<in> snapshot_protocol_name `
      {s \<in> set (snapshots db). now - timedelta_hours 48 \<le> timestamp s}"
    by simp
  then show "p \<in> set (get_active_protocols now db)"
    by (simp add: get_active_protocols_def Let_def s(3))
qed

lemma detect_all_later:
  assumes "now \<le> now'"
    and "\<forall>s\<in>set (snapshots db).
           \<not> (now - timedelta_hours (TVL_LOOKBACK_HOURS cfg) < timestamp s
              \<and> timestamp s \<le> now' - timedelta_hours (TVL_LOOKBACK_HOURS cfg))"
  shows "detect_all cfg now' (fst (detect_all cfg now db)) = (fst (detect_all cfg now db), [])"
proof -
  let ?ps = "get_active_protocols now db"
  let ?ps' = "get_active_protocols now' db"
  let ?db1 = "fst (detect_all cfg now db)"
  have s: "snapshots ?db1 = snapshots db" by (rule detect_all_snapshots)
  have ps: "get_active_protocols now' ?db1 = ?ps'"
    by (rule get_active_protocols_snapshots) (rule s)
  have quiet: "\<forall>s\<in>set (snapshots ?db1).
           \<not> (now - timedelta_hours (TVL_LOOKBACK_HOURS cfg) < timestamp s
              \<and> timestamp s \<le> now' - timedelta_hours (TVL_LOOKBACK_HOURS cfg))"
    using assms(2) by (simp only: s)
  have "detect_loop cfg now' ?ps' (?db1, []) = (?db1, [])"
  proof (rule detect_loop_settled)
    fix p assume "p \<in> set ?ps'"
    with get_active_protocols_later [OF assms(1)] have "p \<in> set ?ps" by (rule subsetD)
    then have "settled cfg now (fst (detect_loop cfg now ?ps (db, []))) p"
      by (rule detect_loop_settles)
    then have "settled cfg now ?db1 p"
      by (simp add: detect_all_def)
    then have "settled cfg now' ?db1 p"
      using assms(1) quiet by (rule settled_later)
    then show "settled cfg now' (fst (?db1, [])) p"
      by simp
  qed
  then show ?thesis
    by (simp add: detect_all_def [of cfg now' ?db1] ps)
qed

lemma detect_all_unique:
  "open_alerts_unique db \<Longrightarrow> open_alerts_unique (fst (detect_all cfg now db))"
  using detect_loop_unique [of "(db, [])" cfg now "get_active_protocols now db"]
  by (simp add: detect_all_def)

lemma detect_all_crash_db: "map (\<lambda>a. (protocol_name a, alert_type a, severity a, alert_id a))
    (snd (detect_all settings 86700000000 crash_db))
  = [(''felix'', ''tvl_drop'', ''critical'', 1), (''felix'', ''apy_low'', ''warning'', 2),
     (''felix'', ''utilization_high'', ''warning'', 3)]"
  by (simp add: detect_all_def get_active_protocols_def crash_db_def timedelta_hours_def
        detect_protocol_def check_tvl_drop_def check_apy_low_def check_utilization_high_def
        latest_snapshot_def latest_snapshot_until_def settings_def create_alert_def
        to_double_values         open_alert_def append_alert_def next_id_def LENDING_PROTOCOLS_def Let_def)

lemma open_keys_after_resolve:
  "map (\<lambda>a. (protocol_name a, alert_type a))
     (filter (\<lambda>a. resolved_at a = None)
        (map (\<lambda>a. if alert_id a = aid then a \<lparr> resolved_at := Some now \<rparr> else a) xs))
   = map (\<lambda>a. (protocol_name a, alert_type a))
       (filter (\<lambda>a. alert_id a \<noteq> aid) (filter (\<lambda>a. resolved_at a = None) xs))"
  by (induction xs) auto

lemma resolve_alert_unique:
  assumes "open_alerts_unique db"
  shows "open_alerts_unique (fst (resolve_alert now db aid))"
proof -
  have "distinct (map (\<lambda>a. (protocol_name a, alert_type a))
          (filter (\<lambda>a. alert_id a \<noteq> aid) (filter (\<lambda>a. resolved_at a = None) (alerts db))))"
    using assms unfolding open_alerts_unique_def by (rule distinct_map_filter)
  then show ?thesis
    using assms
    by (simp add: resolve_alert_def open_alerts_unique_def open_keys_after_resolve
          split: option.splits)
qed

lemma reachable_unique: "reachable db \<Longrightarrow> open_alerts_unique db"
proof (induction rule: reachable.induct)
  case reachable_empty
  show ?case by (simp add: open_alerts_unique_def empty_db_def)
next
  case (reachable_store db name ts tvl apy util)
  then show ?case by (simp add: open_alerts_unique_def alerts_after_store)
next
  case (reachable_detect db cfg now)
  from reachable_detect.IH show ?case by (rule detect_all_unique)
next
  case (reachable_resolve db now aid)
  from reachable_resolve.IH show ?case by (rule resolve_alert_unique)
qed

text \<open>
  Claim C1, as amended. Deduplication of open alerts.
  \<^item> A detection pass keeps the invariant that no two open alerts share (protocol,
    type); the invariant holds of every table built from empty tables by stores,
    detection passes and resolution requests.
  \<^item> When an open alert of the candidate's (protocol, type) exists, \<^verbatim>\<open>_create_alert\<close>
    returns nothing and leaves the tables, so the existing alert, as they are.
  \<^item> A pass only appends to the alert table: the rows that were there stay unchanged
    and in place, followed by exactly the alerts the pass returns; the snapshot table
    is untouched.
  \<^item> A second pass at an instant \<open>now'\<close> not before the instant \<open>now\<close> of the first, on
    the tables the first pass left, returns the empty list and changes nothing,
    provided that no snapshot has its timestamp after the lookback instant of the
    first pass, \<open>now - lookback_hours\<close>, and at or before that of the second,
    \<open>now' - lookback_hours\<close>. The proviso holds when \<open>now' = now\<close>.
\<close>

theorem detect_all_dedup:
  "(open_alerts_unique db \<longrightarrow> open_alerts_unique (fst (detect_all cfg now db)))
   \<and> (reachable db \<longrightarrow> open_alerts_unique db)
   \<and> (\<forall>existing. open_alert db name ty = Some existing
        \<longrightarrow> create_alert now db name ty sev msg = (db, None))
   \<and> alerts (fst (detect_all cfg now db)) = alerts db @ snd (detect_all cfg now db)
   \<and> snapshots (fst (detect_all cfg now db)) = snapshots db
   \<and> (now \<le> now'
        \<and> (\<forall>s\<in>set (snapshots db).
              \<not> (now - timedelta_hours (TVL_LOOKBACK_HOURS cfg) < timestamp s
                 \<and> timestamp s \<le> now' - timedelta_hours (TVL_LOOKBACK_HOURS cfg)))
        \<longrightarrow> detect_all cfg now' (fst (detect_all cfg now db))
              = (fst (detect_all cfg now db), []))
   \<and> detect_all cfg now (fst (detect_all cfg now db)) = (fst (detect_all cfg now db), [])"
proof (intro conjI allI impI)
  show "open_alerts_unique (fst (detect_all cfg now db))" if "open_alerts_unique db"
    using that by (rule detect_all_unique)
  show "open_alerts_unique db" if "reachable db"
    using that by (rule reachable_unique)
  show "create_alert now db name ty sev msg = (db, None)"
    if "open_alert db name ty = Some existing" for existing
    using that by (rule create_alert_existing)
  show "alerts (fst (detect_all cfg now db)) = alerts db @ snd (detect_all cfg now db)"
    by (rule detect_all_alerts)
  show "snapshots (fst (detect_all cfg now db)) = snapshots db"
    by (rule detect_all_snapshots)
  show "detect_all cfg now' (fst (detect_all cfg now db)) = (fst (detect_all cfg now db), [])"
    if "now \<le> now'
        \<and> (\<forall>s\<in>set (snapshots db).
              \<not> (now - timedelta_hours (TVL_LOOKBACK_HOURS cfg) < timestamp s
                 \<and> timestamp s \<le> now' - timedelta_hours (TVL_LOOKBACK_HOURS cfg)))"
    using that [THEN conjunct1] that [THEN conjunct2] by (rule detect_all_later)
  show "detect_all cfg now (fst (detect_all cfg now db)) = (fst (detect_all cfg now db), [])"
    by (rule detect_all_again)
qed

lemma crash_db_built:
  "fst (store_snapshot
         (fst (store_snapshot empty_db ''felix'' 0 (Some 100000000) (Some 10) (Some (80 / 100))))
         ''felix'' 86700000000 (Some 50000000) (Some (15 / 10)) (Some (99 / 100)))
   = crash_db"
  by (simp add: store_snapshot_def store_snapshot_try_def empty_db_def crash_db_def
        decimal_if_def next_id_def)

text \<open>
  On the staged crash the first pass creates three alerts; a second pass at the same
  instant, one microsecond later or one hour later creates none. On the example alert
  table, where \<^verbatim>\<open>felix\<close> has an open \<^verbatim>\<open>tvl_drop\<close> alert, a new candidate of that type is
  dropped.
\<close>

theorem detect_all_dedup_witness:
  "open_alerts_unique (fst (detect_all settings 86700000000 crash_db))
   \<and> map (\<lambda>a. (protocol_name a, alert_type a, severity a, alert_id a))
        (snd (detect_all settings 86700000000 crash_db))
      = [(''felix'', ''tvl_drop'', ''critical'', 1), (''felix'', ''apy_low'', ''warning'', 2),
         (''felix'', ''utilization_high'', ''warning'', 3)]
   \<and> detect_all settings 86700000000 (fst (detect_all settings 86700000000 crash_db))
      = (fst (detect_all settings 86700000000 crash_db), [])
   \<and> detect_all settings 86700000001 (fst (detect_all settings 86700000000 crash_db))
      = (fst (detect_all settings 86700000000 crash_db), [])
   \<and> detect_all settings 90300000000 (fst (detect_all settings 86700000000 crash_db))
      = (fst (detect_all settings 86700000000 crash_db), [])
   \<and> create_alert 500 status_db_mixed ''felix'' ''tvl_drop'' ''critical''
        (TvlDropMessage (1 / 2) 24 100000000 50000000) = (status_db_mixed, None)"
proof -
  have "reachable (fst (store_snapshot
         (fst (store_snapshot empty_db ''felix'' 0 (Some 100000000) (Some 10) (Some (80 / 100))))
         ''felix'' 86700000000 (Some 50000000) (Some (15 / 10)) (Some (99 / 100))))"
    by (intro reachable_store reachable_empty)
  then have r: "reachable crash_db"
    by (simp only: crash_db_built)
  have r1: "reachable (fst (detect_all settings 86700000000 crash_db))"
    using r by (rule reachable_detect)
  note t = detect_all_dedup [of "fst (detect_all settings 86700000000 crash_db)" settings
      86700000000]
  have u: "open_alerts_unique (fst (detect_all settings 86700000000 crash_db))"
    by (rule t [THEN conjunct2, THEN conjunct1, THEN mp, OF r1])
  have a: "detect_all settings 86700000000 (fst (detect_all settings 86700000000 crash_db))
      = (fst (detect_all settings 86700000000 crash_db), [])"
    by (rule detect_all_dedup [of crash_db settings 86700000000, THEN conjunct2, THEN conjunct2,
          THEN conjunct2, THEN conjunct2, THEN conjunct2, THEN conjunct2])
  have h1: "(86700000000 :: int) \<le> 86700000001
      \<and> (\<forall>s\<in>set (snapshots crash_db).
            \<not> (86700000000 - timedelta_hours (TVL_LOOKBACK_HOURS settings) < timestamp s
               \<and> timestamp s \<le> 86700000001 - timedelta_hours (TVL_LOOKBACK_HOURS settings)))"
    by (simp add: crash_db_def settings_def timedelta_hours_def)
  have a1: "detect_all settings 86700000001 (fst (detect_all settings 86700000000 crash_db))
      = (fst (detect_all settings 86700000000 crash_db), [])"
    by (rule detect_all_dedup [where db = crash_db and cfg = settings and now = 86700000000
          and now' = 86700000001, THEN conjunct2, THEN conjunct2, THEN conjunct2,
          THEN conjunct2, THEN conjunct2, THEN conjunct1, THEN mp, OF h1])
  have h2: "(86700000000 :: int) \<le> 90300000000
      \<and> (\<forall>s\<in>set (snapshots crash_db).
            \<not> (86700000000 - timedelta_hours (TVL_LOOKBACK_HOURS settings) < timestamp s
               \<and> timestamp s \<le> 90300000000 - timedelta_hours (TVL_LOOKBACK_HOURS settings)))"
    by (simp add: crash_db_def settings_def timedelta_hours_def)
  have a2: "detect_all settings 90300000000 (fst (detect_all settings 86700000000 crash_db))
      = (fst (detect_all settings 86700000000 crash_db), [])"
    by (rule detect_all_dedup [where db = crash_db and cfg = settings and now = 86700000000
          and now' = 90300000000, THEN conjunct2, THEN conjunct2, THEN conjunct2,
          THEN conjunct2, THEN conjunct2, THEN conjunct1, THEN mp, OF h2])
  have e: "open_alert status_db_mixed ''felix'' ''tvl_drop'' = Some (alerts status_db_mixed ! 1)"
    by (simp add: open_alert_def status_db_mixed_def)
  have c: "create_alert 500 status_db_mixed ''felix'' ''tvl_drop'' ''critical''
        (TvlDropMessage (1 / 2) 24 100000000 50000000) = (status_db_mixed, None)"
    by (rule detect_all_dedup [of status_db_mixed settings 500, THEN conjunct2, THEN conjunct2,
          THEN conjunct1, THEN spec, THEN mp, OF e])
  from u detect_all_crash_db a a1 a2 c show ?thesis by (intro conjI)
qed

text \<open>
  Claim C1 as stated fails in its last part: two passes in immediate succession over
  unchanged tables can both be the first to see a drop. On \<open>tick_db\<close> a pass one
  microsecond before the old snapshot is 24 hours old finds no snapshot at or before
  its lookback instant, returns the empty list and leaves the tables as they are; the
  pass one microsecond later finds the old snapshot and creates the \<^verbatim>\<open>tvl_drop\<close> alert.
\<close>

theorem detect_all_dedup_counterexample:
  "detect_all settings 86399999999 tick_db = (tick_db, [])
   \<and> map (\<lambda>a. (protocol_name a, alert_type a, severity a, triggered_at a, resolved_at a))
        (snd (detect_all settings 86400000000
                (fst (detect_all settings 86399999999 tick_db))))
      = [(''felix'', ''tvl_drop'', ''critical'', 86400000000, None)]"
proof -
  have a: "detect_all settings 86399999999 tick_db = (tick_db, [])"
    by (simp add: detect_all_def get_active_protocols_def tick_db_def timedelta_hours_def
        detect_protocol_def check_tvl_drop_def check_apy_low_def check_utilization_high_def
        latest_snapshot_def latest_snapshot_until_def settings_def create_alert_def
        to_double_values open_alert_def append_alert_def next_id_def LENDING_PROTOCOLS_def
        Let_def)
  have b: "map (\<lambda>a. (protocol_name a, alert_type a, severity a, triggered_at a, resolved_at a))
        (snd (detect_all settings 86400000000 tick_db))
      = [(''felix'', ''tvl_drop'', ''critical'', 86400000000, None)]"
    by (simp add: detect_all_def get_active_protocols_def tick_db_def timedelta_hours_def
        detect_protocol_def check_tvl_drop_def check_apy_low_def check_utilization_high_def
        latest_snapshot_def latest_snapshot_until_def settings_def create_alert_def
        to_double_values open_alert_def append_alert_def next_id_def LENDING_PROTOCOLS_def
        Let_def)
  from a b show ?thesis by simp
qed

section \<open>The three rules\<close>

lemma first_desc_timestamp_None: "first_desc_timestamp xs = None \<longleftrightarrow> xs = []"
  by (induction xs) (auto split: option.splits)

lemma first_desc_timestamp_Some:
  "first_desc_timestamp xs = Some m \<Longrightarrow> m \<in> set xs \<and> (\<forall>s\<in>set xs. timestamp s \<le> timestamp m)"
proof (induction xs arbitrary: m)
  case Nil
  then show ?case by simp
next
  case (Cons x xs)
  show ?case
  proof (cases "first_desc_timestamp xs")
    case None
    with Cons.prems show ?thesis by (simp add: first_desc_timestamp_None)
  next
    case (Some m')
    from Cons.IH [OF Some] have ih: "m' \<in> set xs" "\<forall>s\<in>set xs. timestamp s \<le> timestamp m'"
      by simp_all
    show ?thesis
    proof (cases "timestamp x < timestamp m'")
      case True
      with Some Cons.prems have "m = m'" by simp
      with ih True show ?thesis by auto
    next
      case False
      with Some Cons.prems have "m = x" by simp
      with ih False show ?thesis by fastforce
    qed
  qed
qed

lemma latest_snapshot_None:
  "latest_snapshot db p = None \<longleftrightarrow> (\<forall>s\<in>set (snapshots db). snapshot_protocol_name s \<noteq> p)"
  by (simp add: latest_snapshot_def first_desc_timestamp_None filter_empty_conv)

lemma latest_snapshot_Some:
  assumes "latest_snapshot db p = Some latest"
  shows "latest \<in> set (snapshots db)" "snapshot_protocol_name latest = p"
    "\<forall>s\<in>set (snapshots db). snapshot_protocol_name s = p \<longrightarrow> timestamp s \<le> timestamp latest"
  using first_desc_timestamp_Some [OF assms [unfolded latest_snapshot_def]] by auto

lemma latest_snapshot_until_None:
  "latest_snapshot_until db p lookback = None
     \<longleftrightarrow> (\<forall>s\<in>set (snapshots db). snapshot_protocol_name s = p \<longrightarrow> \<not> timestamp s \<le> lookback)"
  by (simp add: latest_snapshot_until_def first_desc_timestamp_None filter_empty_conv)

lemma latest_snapshot_until_Some:
  assumes "latest_snapshot_until db p lookback = Some old"
  shows "old \<in> set (snapshots db)" "snapshot_protocol_name old = p" "timestamp old \<le> lookback"
    "\<forall>s\<in>set (snapshots db). snapshot_protocol_name s = p \<and> timestamp s \<le> lookback
        \<longrightarrow> timestamp s \<le> timestamp old"
  using first_desc_timestamp_Some [OF assms [unfolded latest_snapshot_until_def]] by auto

lemma create_alert_result:
  assumes "open_alert db name ty = None"
  shows "case snd (create_alert now db name ty sev msg) of
           None \<Rightarrow> False
         | Some a \<Rightarrow> protocol_name a = name \<and> alert_type a = ty \<and> severity a = sev
                     \<and> message a = Some msg \<and> triggered_at a = now \<and> resolved_at a = None
                     \<and> alerts (fst (create_alert now db name ty sev msg)) = alerts db @ [a]"
  by (simp add: create_alert_new [OF assms])

lemma fire_SomeD:
  "snd (fire now db name ty sev c) = Some a
     \<Longrightarrow> protocol_name a = name \<and> alert_type a = ty \<and> severity a = sev"
  by (auto simp: fire_def create_alert_def Let_def split: option.splits)

lemma append_alert_set:
  "set (append_alert acc r) = set acc \<union> set_option r"
  by (simp add: append_alert_def split: option.splits)

lemma detect_protocol_alert_kinds:
  assumes "a \<in> set (snd (detect_protocol cfg now p (db, acc)))"
  shows "a \<in> set acc \<or>
         (protocol_name a = p \<and>
          (alert_type a = ''tvl_drop'' \<or> alert_type a = ''apy_low''
           \<or> (alert_type a = ''utilization_high'' \<and> p \<in> LENDING_PROTOCOLS)))"
proof -
  let ?d1 = "fst (check_tvl_drop cfg now db p)"
  let ?d2 = "fst (check_apy_low cfg now ?d1 p)"
  have k1: "protocol_name x = p \<and> alert_type x = ''tvl_drop''"
    if "snd (check_tvl_drop cfg now db p) = Some x" for x
    using that fire_SomeD unfolding check_tvl_drop_fire by blast
  have k2: "protocol_name x = p \<and> alert_type x = ''apy_low''"
    if "snd (check_apy_low cfg now ?d1 p) = Some x" for x
    using that fire_SomeD unfolding check_apy_low_fire by blast
  have k3: "protocol_name x = p \<and> alert_type x = ''utilization_high''"
    if "snd (check_utilization_high cfg now ?d2 p) = Some x" for x
    using that fire_SomeD unfolding check_utilization_high_fire by blast
  from assms show ?thesis
    by (auto simp: detect_protocol_unfold Let_def append_alert_set elem_set
             dest: k1 k2 k3 split: if_splits)
qed

lemma detect_loop_alert_kinds:
  assumes "\<forall>a\<in>set (snd st). alert_type a = ''utilization_high''
             \<longrightarrow> protocol_name a \<in> LENDING_PROTOCOLS"
  shows "\<forall>a\<in>set (snd (detect_loop cfg now ps st)). alert_type a = ''utilization_high''
             \<longrightarrow> protocol_name a \<in> LENDING_PROTOCOLS"
  using assms
proof (induction ps arbitrary: st)
  case Nil
  then show ?case by simp
next
  case (Cons p ps)
  have "\<forall>a\<in>set (snd (detect_protocol cfg now p st)). alert_type a = ''utilization_high''
             \<longrightarrow> protocol_name a \<in> LENDING_PROTOCOLS"
  proof (intro ballI impI)
    fix a assume a: "a \<in> set (snd (detect_protocol cfg now p st))"
      and u: "alert_type a = ''utilization_high''"
    from a have "a \<in> set (snd (detect_protocol cfg now p (fst st, snd st)))" by simp
    from detect_protocol_alert_kinds [OF this] u Cons.prems
    show "protocol_name a \<in> LENDING_PROTOCOLS" by auto
  qed
  then show ?case by (simp add: Cons.IH)
qed

lemma detect_all_crash_db_alerts:
  "snd (detect_all settings 86700000000 crash_db) =
     [\<lparr> alert_id = 1, protocol_name = ''felix'', alert_type = ''tvl_drop'',
         severity = ''critical'',
         message = Some (TvlDropMessage (50 / 100) 24 100000000 50000000),
         triggered_at = 86700000000, resolved_at = None \<rparr>,
      \<lparr> alert_id = 2, protocol_name = ''felix'', alert_type = ''apy_low'',
         severity = ''warning'', message = Some (ApyLowMessage (15 / 10) 2),
         triggered_at = 86700000000, resolved_at = None \<rparr>,
      \<lparr> alert_id = 3, protocol_name = ''felix'', alert_type = ''utilization_high'',
         severity = ''warning'',
         message = Some (UtilizationHighMessage (99 / 100) (95 / 100)),
         triggered_at = 86700000000, resolved_at = None \<rparr>]"
  by (simp add: detect_all_def get_active_protocols_def crash_db_def timedelta_hours_def
        detect_protocol_def check_tvl_drop_def check_apy_low_def check_utilization_high_def
        latest_snapshot_def latest_snapshot_until_def settings_def create_alert_def
        to_double_values         open_alert_def append_alert_def next_id_def LENDING_PROTOCOLS_def Let_def)

lemma detect_all_mild_db_alerts:
  "snd (detect_all settings 86700000000 mild_db) =
     [\<lparr> alert_id = 1, protocol_name = ''hlp'', alert_type = ''apy_low'',
         severity = ''warning'', message = Some (ApyLowMessage (15 / 10) 2),
         triggered_at = 86700000000, resolved_at = None \<rparr>]"
  by (simp add: detect_all_def get_active_protocols_def mild_db_def timedelta_hours_def
        detect_protocol_def check_tvl_drop_def check_apy_low_def check_utilization_high_def
        latest_snapshot_def latest_snapshot_until_def settings_def create_alert_def
        to_double_values         open_alert_def append_alert_def next_id_def LENDING_PROTOCOLS_def Let_def)

lemma detect_protocol_mild_db_hlp:
  "snd (detect_protocol settings 86700000000 ''hlp'' (mild_db, [])) =
     [\<lparr> alert_id = 1, protocol_name = ''hlp'', alert_type = ''apy_low'',
         severity = ''warning'', message = Some (ApyLowMessage (15 / 10) 2),
         triggered_at = 86700000000, resolved_at = None \<rparr>]"
  by (simp add: mild_db_def timedelta_hours_def
        detect_protocol_def check_tvl_drop_def check_apy_low_def check_utilization_high_def
        latest_snapshot_def latest_snapshot_until_def settings_def create_alert_def
        to_double_values         open_alert_def append_alert_def next_id_def LENDING_PROTOCOLS_def Let_def)

text \<open>
  Claim C2, as amended. The TVL-drop rule takes \<open>latest\<close> = the most recent snapshot of
  the protocol, whatever its fields, and \<open>old\<close> = the most recent snapshot of the
  protocol at or before \<open>now - lookback_hours\<close> (24 hours by default), whatever its
  fields. It creates nothing and changes nothing when the protocol has no snapshot,
  when the TVL of \<open>latest\<close> is null or zero, when there is no \<open>old\<close>, or when the TVL of
  \<open>old\<close> is null or zero. When the TVL of \<open>latest\<close> is present and not zero and that of
  \<open>old\<close> is present and not zero, it computes the drop in binary floating point: both
  values are converted to the nearest double (the old one stays different from zero),
  the difference \<open>old_tvl - current_tvl\<close> is rounded to the nearest double and so is its
  quotient by \<open>old_tvl\<close>. It hands a critical \<^verbatim>\<open>tvl_drop\<close> candidate to \<^verbatim>\<open>_create_alert\<close> if
  and only if this computed drop is greater than the threshold, by default the double
  nearest to 0.20, which is \<open>3602879701896397 / 2 ^ 54\<close>; with no open alert of that
  type the alert is created exactly then.
\<close>

theorem check_tvl_drop_rule:
  "(latest_snapshot db p = None \<longrightarrow> check_tvl_drop cfg now db p = (db, None))
   \<and> (\<forall>latest. latest_snapshot db p = Some latest \<longrightarrow>
        latest \<in> set (snapshots db) \<and> snapshot_protocol_name latest = p
        \<and> (\<forall>s\<in>set (snapshots db). snapshot_protocol_name s = p
              \<longrightarrow> timestamp s \<le> timestamp latest)
        \<and> (tvl_usd latest = None \<or> tvl_usd latest = Some 0
              \<longrightarrow> check_tvl_drop cfg now db p = (db, None))
        \<and> (\<forall>latest_tvl_usd. tvl_usd latest = Some latest_tvl_usd \<and> latest_tvl_usd \<noteq> 0 \<longrightarrow>
             (latest_snapshot_until db p (now - timedelta_hours (TVL_LOOKBACK_HOURS cfg)) = None
                \<longrightarrow> check_tvl_drop cfg now db p = (db, None))
             \<and> (\<forall>old. latest_snapshot_until db p
                          (now - timedelta_hours (TVL_LOOKBACK_HOURS cfg)) = Some old \<longrightarrow>
                  old \<in> set (snapshots db) \<and> snapshot_protocol_name old = p
                  \<and> timestamp old \<le> now - timedelta_hours (TVL_LOOKBACK_HOURS cfg)
                  \<and> (\<forall>s\<in>set (snapshots db). snapshot_protocol_name s = p
                        \<and> timestamp s \<le> now - timedelta_hours (TVL_LOOKBACK_HOURS cfg)
                        \<longrightarrow> timestamp s \<le> timestamp old)
                  \<and> (tvl_usd old = None \<or> tvl_usd old = Some 0
                        \<longrightarrow> check_tvl_drop cfg now db p = (db, None))
                  \<and> (\<forall>old_tvl_usd. tvl_usd old = Some old_tvl_usd \<and> old_tvl_usd \<noteq> 0 \<longrightarrow>
                       (let current_tvl = to_double latest_tvl_usd;
                            old_tvl = to_double old_tvl_usd;
                            drop_pct = to_double (to_double (old_tvl - current_tvl) / old_tvl)
                        in old_tvl \<noteq> 0
                           \<and> check_tvl_drop cfg now db p =
                               (if TVL_DROP_THRESHOLD cfg < drop_pct
                                then create_alert now db p ''tvl_drop'' ''critical''
                                       (TvlDropMessage drop_pct (TVL_LOOKBACK_HOURS cfg)
                                          old_tvl current_tvl)
                                else (db, None))
                           \<and> (open_alert db p ''tvl_drop'' = None \<longrightarrow>
                                (case snd (check_tvl_drop cfg now db p) of
                                   None \<Rightarrow> \<not> TVL_DROP_THRESHOLD cfg < drop_pct
                                 | Some a \<Rightarrow>
                                     TVL_DROP_THRESHOLD cfg < drop_pct
                                     \<and> protocol_name a = p \<and> alert_type a = ''tvl_drop''
                                     \<and> severity a = ''critical'' \<and> triggered_at a = now
                                     \<and> resolved_at a = None)))))))
   \<and> TVL_DROP_THRESHOLD settings = to_double (20 / 100)
   \<and> to_double (20 / 100) = 3602879701896397 / 2 ^ 54
   \<and> TVL_LOOKBACK_HOURS settings = 24
   \<and> timedelta_hours 24 = 24 * 60 * 60 * 1000000"
proof (intro conjI allI impI)
  show "check_tvl_drop cfg now db p = (db, None)" if "latest_snapshot db p = None"
    using that by (simp add: check_tvl_drop_def)
next
  let ?lookback = "now - timedelta_hours (TVL_LOOKBACK_HOURS cfg)"
  fix latest assume l: "latest_snapshot db p = Some latest"
  show "latest \<in> set (snapshots db)" "snapshot_protocol_name latest = p"
    "\<forall>s\<in>set (snapshots db). snapshot_protocol_name s = p \<longrightarrow> timestamp s \<le> timestamp latest"
    by (rule latest_snapshot_Some [OF l])+
  show "check_tvl_drop cfg now db p = (db, None)"
    if "tvl_usd latest = None \<or> tvl_usd latest = Some 0"
    using that l by (auto simp: check_tvl_drop_def)
  fix latest_tvl_usd assume "tvl_usd latest = Some latest_tvl_usd \<and> latest_tvl_usd \<noteq> 0"
  then have c: "tvl_usd latest = Some latest_tvl_usd" "latest_tvl_usd \<noteq> 0" by simp_all
  show "check_tvl_drop cfg now db p = (db, None)"
    if "latest_snapshot_until db p ?lookback = None"
    using that l c by (simp add: check_tvl_drop_def)
  fix old assume o: "latest_snapshot_until db p ?lookback = Some old"
  show "old \<in> set (snapshots db)" "snapshot_protocol_name old = p"
    "timestamp old \<le> ?lookback"
    "\<forall>s\<in>set (snapshots db). snapshot_protocol_name s = p \<and> timestamp s \<le> ?lookback
        \<longrightarrow> timestamp s \<le> timestamp old"
    by (rule latest_snapshot_until_Some [OF o])+
  show "check_tvl_drop cfg now db p = (db, None)"
    if "tvl_usd old = None \<or> tvl_usd old = Some 0"
    using that l c o by (auto simp: check_tvl_drop_def)
  fix old_tvl_usd assume "tvl_usd old = Some old_tvl_usd \<and> old_tvl_usd \<noteq> 0"
  then have t: "tvl_usd old = Some old_tvl_usd" "old_tvl_usd \<noteq> 0" by simp_all
  let ?current = "to_double latest_tvl_usd"
  let ?old = "to_double old_tvl_usd"
  let ?drop = "to_double (to_double (?old - ?current) / ?old)"
  let ?msg = "TvlDropMessage ?drop (TVL_LOOKBACK_HOURS cfg) ?old ?current"
  from t(2) have nz: "?old \<noteq> 0"
    by (simp add: to_double_eq_0_iff)
  have eq: "check_tvl_drop cfg now db p =
      (if TVL_DROP_THRESHOLD cfg < ?drop
       then create_alert now db p ''tvl_drop'' ''critical'' ?msg else (db, None))"
    using l c o t nz by (simp add: check_tvl_drop_def Let_def)
  have res: "case snd (check_tvl_drop cfg now db p) of
          None \<Rightarrow> \<not> TVL_DROP_THRESHOLD cfg < ?drop
        | Some a \<Rightarrow> TVL_DROP_THRESHOLD cfg < ?drop \<and> protocol_name a = p
            \<and> alert_type a = ''tvl_drop'' \<and> severity a = ''critical''
            \<and> triggered_at a = now \<and> resolved_at a = None"
    if no: "open_alert db p ''tvl_drop'' = None"
  proof (cases "TVL_DROP_THRESHOLD cfg < ?drop")
    case True
    with create_alert_result [OF no, where now = now and sev = "''critical''" and msg = ?msg]
    show ?thesis
      unfolding eq by (simp split: option.splits)
  next
    case False
    then show ?thesis unfolding eq by simp
  qed
  show "let current_tvl = to_double latest_tvl_usd;
            old_tvl = to_double old_tvl_usd;
            drop_pct = to_double (to_double (old_tvl - current_tvl) / old_tvl)
        in old_tvl \<noteq> 0
           \<and> check_tvl_drop cfg now db p =
               (if TVL_DROP_THRESHOLD cfg < drop_pct
                then create_alert now db p ''tvl_drop'' ''critical''
                       (TvlDropMessage drop_pct (TVL_LOOKBACK_HOURS cfg) old_tvl current_tvl)
                else (db, None))
           \<and> (open_alert db p ''tvl_drop'' = None \<longrightarrow>
                (case snd (check_tvl_drop cfg now db p) of
                   None \<Rightarrow> \<not> TVL_DROP_THRESHOLD cfg < drop_pct
                 | Some a \<Rightarrow>
                     TVL_DROP_THRESHOLD cfg < drop_pct
                     \<and> protocol_name a = p \<and> alert_type a = ''tvl_drop''
                     \<and> severity a = ''critical'' \<and> triggered_at a = now
                     \<and> resolved_at a = None))"
    unfolding Let_def
  proof (intro conjI impI)
    show "?old \<noteq> 0" by (rule nz)
    show "check_tvl_drop cfg now db p =
      (if TVL_DROP_THRESHOLD cfg < ?drop
       then create_alert now db p ''tvl_drop'' ''critical'' ?msg else (db, None))"
      by (rule eq)
    assume "open_alert db p ''tvl_drop'' = None"
    then show "case snd (check_tvl_drop cfg now db p) of
          None \<Rightarrow> \<not> TVL_DROP_THRESHOLD cfg < ?drop
        | Some a \<Rightarrow> TVL_DROP_THRESHOLD cfg < ?drop \<and> protocol_name a = p
            \<and> alert_type a = ''tvl_drop'' \<and> severity a = ''critical''
            \<and> triggered_at a = now \<and> resolved_at a = None"
      by (rule res)
  qed
next
  show "TVL_DROP_THRESHOLD settings = to_double (20 / 100)" "TVL_LOOKBACK_HOURS settings = 24"
    "timedelta_hours 24 = 24 * 60 * 60 * 1000000"
    by (simp_all add: settings_def timedelta_hours_def)
  show "to_double (20 / 100) = 3602879701896397 / 2 ^ 54"
    by (simp add: to_double_threshold)
qed

text \<open>
  An old TVL of 100,000,000 with a latest TVL of 50,000,000 gives a critical
  \<^verbatim>\<open>tvl_drop\<close> alert with a drop of one half; a latest TVL of 85,000,000 gives none.
  An old TVL of 14,999.95 with a latest TVL of 11,999.96 is a fall of exactly one
  fifth, and the drop that the rule computes, \<open>7205759403792797 / 2 ^ 55\<close>, is above
  the threshold: the alert is created.
\<close>

theorem check_tvl_drop_rule_witness:
  "map_option (\<lambda>a. (protocol_name a, alert_type a, severity a, message a))
      (snd (check_tvl_drop settings 86700000000 crash_db ''felix''))
     = Some (''felix'', ''tvl_drop'', ''critical'',
             Some (TvlDropMessage (50 / 100) 24 100000000 50000000))
   \<and> check_tvl_drop settings 86700000000 mild_db ''felix'' = (mild_db, None)
   \<and> map_option (\<lambda>a. (protocol_name a, alert_type a, severity a, message a))
        (snd (check_tvl_drop settings 86700000000 fifth_db ''felix''))
     = Some (''felix'', ''tvl_drop'', ''critical'',
             Some (TvlDropMessage (7205759403792797 / 2 ^ 55) 24
                     (4123154860264653 / 2 ^ 38) (1649261944105861 / 2 ^ 37)))
   \<and> ((299999 / 20 - 299999 / 25) / (299999 / 20) :: rat) = 20 / 100
   \<and> TVL_DROP_THRESHOLD settings < 7205759403792797 / 2 ^ 55"
proof -
  have lb: "86700000000 - timedelta_hours (TVL_LOOKBACK_HOURS settings) = 300000000"
    by (simp add: settings_def timedelta_hours_def)
  have l1: "latest_snapshot crash_db ''felix'' = Some (snapshots crash_db ! 1)"
    by (simp add: latest_snapshot_def crash_db_def)
  have c1: "tvl_usd (snapshots crash_db ! 1) = Some 50000000 \<and> (50000000 :: rat) \<noteq> 0"
    by (simp add: crash_db_def)
  have o1: "latest_snapshot_until crash_db ''felix''
      (86700000000 - timedelta_hours (TVL_LOOKBACK_HOURS settings)) = Some (snapshots crash_db ! 0)"
    unfolding lb by (simp add: latest_snapshot_until_def crash_db_def)
  have t1: "tvl_usd (snapshots crash_db ! 0) = Some 100000000 \<and> (100000000 :: rat) \<noteq> 0"
    by (simp add: crash_db_def)
  have l2: "latest_snapshot mild_db ''felix'' = Some (snapshots mild_db ! 1)"
    by (simp add: latest_snapshot_def mild_db_def)
  have c2: "tvl_usd (snapshots mild_db ! 1) = Some 85000000 \<and> (85000000 :: rat) \<noteq> 0"
    by (simp add: mild_db_def)
  have o2: "latest_snapshot_until mild_db ''felix''
      (86700000000 - timedelta_hours (TVL_LOOKBACK_HOURS settings)) = Some (snapshots mild_db ! 0)"
    unfolding lb by (simp add: latest_snapshot_until_def mild_db_def)
  have t2: "tvl_usd (snapshots mild_db ! 0) = Some 100000000 \<and> (100000000 :: rat) \<noteq> 0"
    by (simp add: mild_db_def)
  have l3: "latest_snapshot fifth_db ''felix'' = Some (snapshots fifth_db ! 1)"
    by (simp add: latest_snapshot_def fifth_db_def)
  have c3: "tvl_usd (snapshots fifth_db ! 1) = Some (299999 / 25) \<and> (299999 / 25 :: rat) \<noteq> 0"
    by (simp add: fifth_db_def)
  have o3: "latest_snapshot_until fifth_db ''felix''
      (86700000000 - timedelta_hours (TVL_LOOKBACK_HOURS settings)) = Some (snapshots fifth_db ! 0)"
    unfolding lb by (simp add: latest_snapshot_until_def fifth_db_def)
  have t3: "tvl_usd (snapshots fifth_db ! 0) = Some (299999 / 20) \<and> (299999 / 20 :: rat) \<noteq> 0"
    by (simp add: fifth_db_def)
  note r1 = check_tvl_drop_rule [of crash_db "''felix''" settings 86700000000,
      THEN conjunct2, THEN conjunct1, THEN spec, THEN mp, OF l1,
      THEN conjunct2, THEN conjunct2, THEN conjunct2, THEN conjunct2,
      THEN spec, THEN mp, OF c1, THEN conjunct2, THEN spec, THEN mp, OF o1,
      THEN conjunct2, THEN conjunct2, THEN conjunct2, THEN conjunct2, THEN conjunct2,
      THEN spec, THEN mp, OF t1, unfolded Let_def, THEN conjunct2, THEN conjunct1]
  note r2 = check_tvl_drop_rule [of mild_db "''felix''" settings 86700000000,
      THEN conjunct2, THEN conjunct1, THEN spec, THEN mp, OF l2,
      THEN conjunct2, THEN conjunct2, THEN conjunct2, THEN conjunct2,
      THEN spec, THEN mp, OF c2, THEN conjunct2, THEN spec, THEN mp, OF o2,
      THEN conjunct2, THEN conjunct2, THEN conjunct2, THEN conjunct2, THEN conjunct2,
      THEN spec, THEN mp, OF t2, unfolded Let_def, THEN conjunct2, THEN conjunct1]
  note r3 = check_tvl_drop_rule [of fifth_db "''felix''" settings 86700000000,
      THEN conjunct2, THEN conjunct1, THEN spec, THEN mp, OF l3,
      THEN conjunct2, THEN conjunct2, THEN conjunct2, THEN conjunct2,
      THEN spec, THEN mp, OF c3, THEN conjunct2, THEN spec, THEN mp, OF o3,
      THEN conjunct2, THEN conjunct2, THEN conjunct2, THEN conjunct2, THEN conjunct2,
      THEN spec, THEN mp, OF t3, unfolded Let_def, THEN conjunct2, THEN conjunct1]
  have thr: "TVL_DROP_THRESHOLD settings = 3602879701896397 / 18014398509481984"
    by (simp add: settings_def to_double_threshold)
  have w1: "map_option (\<lambda>a. (protocol_name a, alert_type a, severity a, message a))
      (snd (check_tvl_drop settings 86700000000 crash_db ''felix''))
     = Some (''felix'', ''tvl_drop'', ''critical'',
             Some (TvlDropMessage (50 / 100) 24 100000000 50000000))"
    unfolding r1 thr
    by (simp add: settings_def create_alert_def open_alert_def crash_db_def Let_def
          to_double_values)
  have w2: "check_tvl_drop settings 86700000000 mild_db ''felix'' = (mild_db, None)"
    unfolding r2 thr by (simp add: to_double_values)
  have w3: "map_option (\<lambda>a. (protocol_name a, alert_type a, severity a, message a))
        (snd (check_tvl_drop settings 86700000000 fifth_db ''felix''))
     = Some (''felix'', ''tvl_drop'', ''critical'',
             Some (TvlDropMessage (7205759403792797 / 2 ^ 55) 24
                     (4123154860264653 / 2 ^ 38) (1649261944105861 / 2 ^ 37)))"
    unfolding r3 thr to_double_fifth_drop
    by (simp add: settings_def create_alert_def open_alert_def fifth_db_def Let_def
          to_double_fifth_old to_double_fifth_latest)
  have w4: "((299999 / 20 - 299999 / 25) / (299999 / 20) :: rat) = 20 / 100"
    by simp
  have w5: "TVL_DROP_THRESHOLD settings < 7205759403792797 / 2 ^ 55"
    unfolding thr by simp
  from w1 w2 w3 w4 w5 show ?thesis by (intro conjI)
qed

text \<open>
  Claim C2 as stated fails: when the newest snapshot has a null TVL, the most recent
  snapshots with a TVL (50,000,000 now, 100,000,000 a day before) make the rule of the
  specification fire, and the check creates nothing.
\<close>

theorem check_tvl_drop_counterexample:
  "spec_tvl_drop_candidate settings 86760000000 gap_db ''felix''
   \<and> check_tvl_drop settings 86760000000 gap_db ''felix'' = (gap_db, None)"
  by (simp add: spec_tvl_drop_candidate_def spec_latest_with_def spec_latest_with_until_def
        check_tvl_drop_def latest_snapshot_def gap_db_def crash_db_def settings_def
        timedelta_hours_def to_double_threshold del: not_None_eq)

text \<open>
  Claim C3, as amended. The APY-low rule takes \<open>latest\<close> = the most recent snapshot of
  the protocol, whatever its fields. It creates nothing and changes nothing when the
  protocol has no snapshot or the APY of \<open>latest\<close> is null. When that APY is present
  and not zero, it hands a warning \<^verbatim>\<open>apy_low\<close> candidate to \<^verbatim>\<open>_create_alert\<close> if and only
  if the APY is below 2.0 (the default threshold); with no open alert of that type the
  alert is created exactly then.
\<close>

theorem check_apy_low_rule:
  "(latest_snapshot db p = None \<longrightarrow> check_apy_low cfg now db p = (db, None))
   \<and> (\<forall>latest. latest_snapshot db p = Some latest \<longrightarrow>
        latest \<in> set (snapshots db) \<and> snapshot_protocol_name latest = p
        \<and> (\<forall>s\<in>set (snapshots db). snapshot_protocol_name s = p
              \<longrightarrow> timestamp s \<le> timestamp latest)
        \<and> (apy_7d latest = None \<longrightarrow> check_apy_low cfg now db p = (db, None))
        \<and> (\<forall>apy. apy_7d latest = Some apy \<and> apy \<noteq> 0 \<longrightarrow>
              check_apy_low cfg now db p =
                (if apy < APY_MIN_THRESHOLD cfg
                 then create_alert now db p ''apy_low'' ''warning''
                        (ApyLowMessage apy (APY_MIN_THRESHOLD cfg))
                 else (db, None))
              \<and> (open_alert db p ''apy_low'' = None \<longrightarrow>
                   (case snd (check_apy_low cfg now db p) of
                      None \<Rightarrow> \<not> apy < APY_MIN_THRESHOLD cfg
                    | Some a \<Rightarrow> apy < APY_MIN_THRESHOLD cfg \<and> protocol_name a = p
                        \<and> alert_type a = ''apy_low'' \<and> severity a = ''warning''
                        \<and> triggered_at a = now \<and> resolved_at a = None))))
   \<and> APY_MIN_THRESHOLD settings = 2"
proof (intro conjI allI impI)
  show "check_apy_low cfg now db p = (db, None)" if "latest_snapshot db p = None"
    using that by (simp add: check_apy_low_def)
next
  fix latest assume l: "latest_snapshot db p = Some latest"
  show "latest \<in> set (snapshots db)" "snapshot_protocol_name latest = p"
    "\<forall>s\<in>set (snapshots db). snapshot_protocol_name s = p \<longrightarrow> timestamp s \<le> timestamp latest"
    by (rule latest_snapshot_Some [OF l])+
  show "check_apy_low cfg now db p = (db, None)" if "apy_7d latest = None"
    using that l by (simp add: check_apy_low_def)
  fix apy assume "apy_7d latest = Some apy \<and> apy \<noteq> 0"
  then have a: "apy_7d latest = Some apy" "apy \<noteq> 0" by simp_all
  show eq: "check_apy_low cfg now db p =
      (if apy < APY_MIN_THRESHOLD cfg
       then create_alert now db p ''apy_low'' ''warning''
              (ApyLowMessage apy (APY_MIN_THRESHOLD cfg))
       else (db, None))"
    using l a by (simp add: check_apy_low_def)
  assume no: "open_alert db p ''apy_low'' = None"
  show "case snd (check_apy_low cfg now db p) of
          None \<Rightarrow> \<not> apy < APY_MIN_THRESHOLD cfg
        | Some a \<Rightarrow> apy < APY_MIN_THRESHOLD cfg \<and> protocol_name a = p
            \<and> alert_type a = ''apy_low'' \<and> severity a = ''warning''
            \<and> triggered_at a = now \<and> resolved_at a = None"
  proof (cases "apy < APY_MIN_THRESHOLD cfg")
    case True
    with create_alert_result [OF no, where now = now and sev = "''warning''"
        and msg = "ApyLowMessage apy (APY_MIN_THRESHOLD cfg)"]
    show ?thesis
      unfolding eq by (simp split: option.splits)
  next
    case False
    then show ?thesis unfolding eq by simp
  qed
next
  show "APY_MIN_THRESHOLD settings = 2" by (simp add: settings_def)
qed

text \<open>A latest APY of 1.5 gives a warning \<^verbatim>\<open>apy_low\<close> alert, one of 2.5 gives none.\<close>

theorem check_apy_low_rule_witness:
  "map_option (\<lambda>a. (protocol_name a, alert_type a, severity a))
      (snd (check_apy_low settings 86700000000 crash_db ''felix''))
     = Some (''felix'', ''apy_low'', ''warning'')
   \<and> check_apy_low settings 86700000000 mild_db ''felix'' = (mild_db, None)"
proof -
  have l1: "latest_snapshot crash_db ''felix'' = Some (snapshots crash_db ! 1)"
    by (simp add: latest_snapshot_def crash_db_def)
  have a1: "apy_7d (snapshots crash_db ! 1) = Some (15 / 10) \<and> (15 / 10 :: rat) \<noteq> 0"
    by (simp add: crash_db_def)
  have o1: "open_alert crash_db ''felix'' ''apy_low'' = None"
    by (simp add: open_alert_def crash_db_def)
  have l2: "latest_snapshot mild_db ''felix'' = Some (snapshots mild_db ! 1)"
    by (simp add: latest_snapshot_def mild_db_def)
  have a2: "apy_7d (snapshots mild_db ! 1) = Some (25 / 10) \<and> (25 / 10 :: rat) \<noteq> 0"
    by (simp add: mild_db_def)
  note t1 = check_apy_low_rule [of crash_db "''felix''" settings 86700000000,
      THEN conjunct2, THEN conjunct1, THEN spec, THEN mp, OF l1,
      THEN conjunct2, THEN conjunct2, THEN conjunct2, THEN conjunct2,
      THEN spec, THEN mp, OF a1, THEN conjunct2, THEN mp, OF o1]
  note t2 = check_apy_low_rule [of mild_db "''felix''" settings 86700000000,
      THEN conjunct2, THEN conjunct1, THEN spec, THEN mp, OF l2,
      THEN conjunct2, THEN conjunct2, THEN conjunct2, THEN conjunct2,
      THEN spec, THEN mp, OF a2, THEN conjunct1]
  have thr: "APY_MIN_THRESHOLD settings = 2" by (simp add: settings_def)
  have w1: "map_option (\<lambda>a. (protocol_name a, alert_type a, severity a))
      (snd (check_apy_low settings 86700000000 crash_db ''felix''))
     = Some (''felix'', ''apy_low'', ''warning'')"
    using t1 by (simp add: thr split: option.splits)
  have w2: "check_apy_low settings 86700000000 mild_db ''felix'' = (mild_db, None)"
    using t2 by (simp add: thr)
  from w1 w2 show ?thesis by (rule conjI)
qed

text \<open>
  Claim C3 as stated fails: when the newest snapshot has a null APY and the one before
  it an APY of 1.5, the rule of the specification fires and the check creates nothing.
\<close>

theorem check_apy_low_counterexample:
  "spec_apy_low_candidate settings gap_db ''felix''
   \<and> check_apy_low settings 86760000000 gap_db ''felix'' = (gap_db, None)"
  by (simp add: spec_apy_low_candidate_def spec_latest_with_def check_apy_low_def
        latest_snapshot_def gap_db_def crash_db_def settings_def del: not_None_eq)

text \<open>
  Claim C7, as amended. No pass returns a \<^verbatim>\<open>utilization_high\<close> alert for a protocol
  outside the lending set \<open>{felix}\<close>, whatever the utilization stored for it. For a
  lending protocol the rule takes \<open>latest\<close> = the most recent snapshot of the protocol,
  whatever its fields; it creates nothing when there is no snapshot or the utilization
  of \<open>latest\<close> is null; otherwise it hands a warning candidate to \<^verbatim>\<open>_create_alert\<close> if
  and only if the utilization is above 0.95 (the default threshold; for any threshold
  that is not negative, and for a negative one when the utilization is not zero); with
  no open alert of that type the alert is created exactly then.
\<close>

theorem utilization_high_lending_only:
  "(\<forall>a\<in>set (snd (detect_all cfg now db)). alert_type a = ''utilization_high''
        \<longrightarrow> protocol_name a \<in> LENDING_PROTOCOLS)
   \<and> (p \<notin> LENDING_PROTOCOLS \<longrightarrow>
        (\<forall>a\<in>set (snd (detect_protocol cfg now p (db, []))).
            alert_type a \<noteq> ''utilization_high''))
   \<and> (latest_snapshot db p = None \<longrightarrow> check_utilization_high cfg now db p = (db, None))
   \<and> (\<forall>latest. latest_snapshot db p = Some latest \<longrightarrow>
        latest \<in> set (snapshots db) \<and> snapshot_protocol_name latest = p
        \<and> (\<forall>s\<in>set (snapshots db). snapshot_protocol_name s = p
              \<longrightarrow> timestamp s \<le> timestamp latest)
        \<and> (utilization_rate latest = None
              \<longrightarrow> check_utilization_high cfg now db p = (db, None))
        \<and> (\<forall>util. utilization_rate latest = Some util
                    \<and> (util \<noteq> 0 \<or> 0 \<le> UTILIZATION_MAX_THRESHOLD cfg) \<longrightarrow>
              check_utilization_high cfg now db p =
                (if UTILIZATION_MAX_THRESHOLD cfg < util
                 then create_alert now db p ''utilization_high'' ''warning''
                        (UtilizationHighMessage util (UTILIZATION_MAX_THRESHOLD cfg))
                 else (db, None))
              \<and> (open_alert db p ''utilization_high'' = None \<longrightarrow>
                   (case snd (check_utilization_high cfg now db p) of
                      None \<Rightarrow> \<not> UTILIZATION_MAX_THRESHOLD cfg < util
                    | Some a \<Rightarrow> UTILIZATION_MAX_THRESHOLD cfg < util \<and> protocol_name a = p
                        \<and> alert_type a = ''utilization_high'' \<and> severity a = ''warning''
                        \<and> triggered_at a = now \<and> resolved_at a = None))))
   \<and> LENDING_PROTOCOLS = {''felix''} \<and> UTILIZATION_MAX_THRESHOLD settings = 95 / 100"
proof (intro conjI allI impI)
  show "\<forall>a\<in>set (snd (detect_all cfg now db)). alert_type a = ''utilization_high''
        \<longrightarrow> protocol_name a \<in> LENDING_PROTOCOLS"
    unfolding detect_all_def by (rule detect_loop_alert_kinds) simp
next
  assume "p \<notin> LENDING_PROTOCOLS"
  then show "\<forall>a\<in>set (snd (detect_protocol cfg now p (db, []))).
      alert_type a \<noteq> ''utilization_high''"
    using detect_protocol_alert_kinds [of _ cfg now p db "[]"] by fastforce
next
  show "check_utilization_high cfg now db p = (db, None)" if "latest_snapshot db p = None"
    using that by (simp add: check_utilization_high_def)
next
  fix latest assume l: "latest_snapshot db p = Some latest"
  show "latest \<in> set (snapshots db)" "snapshot_protocol_name latest = p"
    "\<forall>s\<in>set (snapshots db). snapshot_protocol_name s = p \<longrightarrow> timestamp s \<le> timestamp latest"
    by (rule latest_snapshot_Some [OF l])+
  show "check_utilization_high cfg now db p = (db, None)" if "utilization_rate latest = None"
    using that l by (simp add: check_utilization_high_def)
  fix util
  assume "utilization_rate latest = Some util
            \<and> (util \<noteq> 0 \<or> 0 \<le> UTILIZATION_MAX_THRESHOLD cfg)"
  then have u: "utilization_rate latest = Some util"
    "util \<noteq> 0 \<or> 0 \<le> UTILIZATION_MAX_THRESHOLD cfg" by simp_all
  let ?msg = "UtilizationHighMessage util (UTILIZATION_MAX_THRESHOLD cfg)"
  show eq: "check_utilization_high cfg now db p =
      (if UTILIZATION_MAX_THRESHOLD cfg < util
       then create_alert now db p ''utilization_high'' ''warning'' ?msg else (db, None))"
    using l u by (auto simp: check_utilization_high_def)
  assume no: "open_alert db p ''utilization_high'' = None"
  show "case snd (check_utilization_high cfg now db p) of
          None \<Rightarrow> \<not> UTILIZATION_MAX_THRESHOLD cfg < util
        | Some a \<Rightarrow> UTILIZATION_MAX_THRESHOLD cfg < util \<and> protocol_name a = p
            \<and> alert_type a = ''utilization_high'' \<and> severity a = ''warning''
            \<and> triggered_at a = now \<and> resolved_at a = None"
  proof (cases "UTILIZATION_MAX_THRESHOLD cfg < util")
    case True
    with create_alert_result [OF no, where now = now and sev = "''warning''" and msg = ?msg]
    show ?thesis
      unfolding eq by (simp split: option.splits)
  next
    case False
    then show ?thesis unfolding eq by simp
  qed
next
  show "LENDING_PROTOCOLS = {''felix''}" "UTILIZATION_MAX_THRESHOLD settings = 95 / 100"
    by (simp_all add: LENDING_PROTOCOLS_def settings_def)
qed

text \<open>
  \<^verbatim>\<open>hlp\<close>, with a utilization of 0.99, gets its \<^verbatim>\<open>apy_low\<close> alert and no
  \<^verbatim>\<open>utilization_high\<close> one; \<^verbatim>\<open>felix\<close> gets one at 0.99 and none at 0.80.
\<close>

theorem utilization_high_lending_only_witness:
  "protocol_name (snd (detect_all settings 86700000000 crash_db) ! 2) \<in> LENDING_PROTOCOLS
   \<and> utilization_rate (snapshots mild_db ! 2) = Some (99 / 100)
   \<and> snapshot_protocol_name (snapshots mild_db ! 2) = ''hlp''
   \<and> alert_type (snd (detect_protocol settings 86700000000 ''hlp'' (mild_db, [])) ! 0)
        \<noteq> ''utilization_high''
   \<and> length (snd (detect_all settings 86700000000 mild_db)) = 1
   \<and> map_option (\<lambda>a. (protocol_name a, alert_type a, severity a))
        (snd (check_utilization_high settings 86700000000 crash_db ''felix''))
      = Some (''felix'', ''utilization_high'', ''warning'')
   \<and> check_utilization_high settings 86700000000 mild_db ''felix'' = (mild_db, None)"
proof -
  note t1 = utilization_high_lending_only [of settings 86700000000 crash_db "''felix''"]
  note t2 = utilization_high_lending_only [of settings 86700000000 mild_db "''hlp''"]
  note t3 = utilization_high_lending_only [of settings 86700000000 mild_db "''felix''"]
  have m1: "snd (detect_all settings 86700000000 crash_db) ! 2
              \<in> set (snd (detect_all settings 86700000000 crash_db))"
    and k1: "alert_type (snd (detect_all settings 86700000000 crash_db) ! 2)
              = ''utilization_high''"
    by (simp_all add: detect_all_crash_db_alerts)
  have w1: "protocol_name (snd (detect_all settings 86700000000 crash_db) ! 2)
              \<in> LENDING_PROTOCOLS"
    by (rule t1 [THEN conjunct1, THEN bspec, OF m1, THEN mp, OF k1])
  have n2: "''hlp'' \<notin> LENDING_PROTOCOLS"
    by (simp add: LENDING_PROTOCOLS_def)
  have m2: "snd (detect_protocol settings 86700000000 ''hlp'' (mild_db, [])) ! 0
              \<in> set (snd (detect_protocol settings 86700000000 ''hlp'' (mild_db, [])))"
    by (simp add: detect_protocol_mild_db_hlp)
  have w2: "alert_type (snd (detect_protocol settings 86700000000 ''hlp'' (mild_db, [])) ! 0)
        \<noteq> ''utilization_high''"
    by (rule t2 [THEN conjunct2, THEN conjunct1, THEN mp, OF n2, THEN bspec, OF m2])
  have l3: "latest_snapshot crash_db ''felix'' = Some (snapshots crash_db ! 1)"
    by (simp add: latest_snapshot_def crash_db_def)
  have u3: "utilization_rate (snapshots crash_db ! 1) = Some (99 / 100)
            \<and> ((99 / 100 :: rat) \<noteq> 0 \<or> 0 \<le> UTILIZATION_MAX_THRESHOLD settings)"
    by (simp add: crash_db_def)
  have o3: "open_alert crash_db ''felix'' ''utilization_high'' = None"
    by (simp add: open_alert_def crash_db_def)
  note r3 = t1 [THEN conjunct2, THEN conjunct2, THEN conjunct2, THEN conjunct1,
      THEN spec, THEN mp, OF l3,
      THEN conjunct2, THEN conjunct2, THEN conjunct2, THEN conjunct2,
      THEN spec, THEN mp, OF u3, THEN conjunct2, THEN mp, OF o3]
  have thr: "UTILIZATION_MAX_THRESHOLD settings = 95 / 100" by (simp add: settings_def)
  have w3: "map_option (\<lambda>a. (protocol_name a, alert_type a, severity a))
        (snd (check_utilization_high settings 86700000000 crash_db ''felix''))
      = Some (''felix'', ''utilization_high'', ''warning'')"
    using r3 by (simp add: thr split: option.splits)
  have l4: "latest_snapshot mild_db ''felix'' = Some (snapshots mild_db ! 1)"
    by (simp add: latest_snapshot_def mild_db_def)
  have u4: "utilization_rate (snapshots mild_db ! 1) = Some (80 / 100)
            \<and> ((80 / 100 :: rat) \<noteq> 0 \<or> 0 \<le> UTILIZATION_MAX_THRESHOLD settings)"
    by (simp add: mild_db_def)
  note r4 = t3 [THEN conjunct2, THEN conjunct2, THEN conjunct2, THEN conjunct1,
      THEN spec, THEN mp, OF l4,
      THEN conjunct2, THEN conjunct2, THEN conjunct2, THEN conjunct2,
      THEN spec, THEN mp, OF u4, THEN conjunct1]
  have w4: "check_utilization_high settings 86700000000 mild_db ''felix'' = (mild_db, None)"
    using r4 by (simp add: thr)
  have w5: "utilization_rate (snapshots mild_db ! 2) = Some (99 / 100)"
    "snapshot_protocol_name (snapshots mild_db ! 2) = ''hlp''"
    "length (snd (detect_all settings 86700000000 mild_db)) = 1"
    by (simp_all add: detect_all_mild_db_alerts) (simp_all add: mild_db_def)
  from w1 w5 w2 w3 w4 show ?thesis by (intro conjI)
qed

text \<open>
  Claim C7 as stated fails in its second half: when the newest snapshot of \<^verbatim>\<open>felix\<close> has
  a null utilization and the one before it 0.99, the rule of the specification fires
  and the check creates nothing.
\<close>

theorem utilization_high_counterexample:
  "spec_utilization_high_candidate settings gap_db ''felix''
   \<and> check_utilization_high settings 86760000000 gap_db ''felix'' = (gap_db, None)"
  by (simp add: spec_utilization_high_candidate_def spec_latest_with_def
        check_utilization_high_def latest_snapshot_def gap_db_def crash_db_def settings_def
        LENDING_PROTOCOLS_def del: not_None_eq)

section \<open>A store that commits and reports failure\<close>

lemma count_outcomes_two:
  "count_outcomes [Inr a, Inr b] (0, 0) =
     ((if a then 1 else 0) + (if b then 1 else 0), (if a then 0 else 1) + (if b then 0 else 1))"
  by simp

lemma rows_at_snapshots: "snapshots db' = snapshots db \<Longrightarrow> rows_at db' = rows_at db"
  by (simp add: rows_at_def fun_eq_iff)

lemma ingest_all_unfold:
  "ingest_all cfg ts now db felix hlp =
     (let r1 = ingest_felix ts db felix; r2 = ingest_hlp ts (fst r1) hlp
      in (fst (detect_all cfg now (fst r2)),
          count_outcomes [Inr (snd r1), Inr (snd r2)] (0, 0)))"
  by (simp add: ingest_all_def Let_def split: prod.splits)

lemma rows_at_felix_after_ingest_hlp:
  "rows_at (fst (ingest_hlp ts db hlp)) ''felix'' ts' = rows_at db ''felix'' ts'"
  by (cases hlp) (simp_all add: ingest_hlp_def rows_at_other_after_store)

lemma rows_at_hlp_after_ingest_felix:
  "rows_at (fst (ingest_felix ts db felix)) ''hlp'' ts' = rows_at db ''hlp'' ts'"
  by (cases felix) (simp_all add: ingest_felix_def rows_at_other_after_store)

lemma rows_at_after_ingest_all:
  "rows_at (fst (ingest_all cfg ts now db felix hlp)) =
     rows_at (fst (ingest_hlp ts (fst (ingest_felix ts db felix)) hlp))"
  by (simp add: ingest_all_unfold Let_def rows_at_snapshots [OF detect_all_snapshots])

text \<open>
  Claim C10. A store with \<^verbatim>\<open>tvl_usd = None\<close> whose key is not in the table commits the
  row and returns \<open>False\<close>: the table after the call has the new row, with a null TVL,
  appended. An ingestion run in which the fetcher of \<^verbatim>\<open>felix\<close> (or of \<^verbatim>\<open>hlp\<close>) hands
  over metrics with a null TVL, at a timestamp not yet stored for that protocol,
  counts at least one failure, and the tables it leaves hold exactly one row of that
  protocol at that timestamp, the one just stored: the failure reported does not mean
  the table was left unchanged.
\<close>

theorem store_snapshot_none_tvl:
  "(rows_at db name ts = [] \<longrightarrow>
      store_snapshot db name ts None apy util =
        (db \<lparr> snapshots := snapshots db @
             [\<lparr> snapshot_id = next_id (map snapshot_id (snapshots db)),
                snapshot_protocol_name = name, timestamp = ts, tvl_usd = None,
                apy_7d = decimal_if apy, utilization_rate = decimal_if util \<rparr>] \<rparr>,
         False))
   \<and> (rows_at db ''felix'' ts = [] \<and> fetched_tvl_usd metrics = None \<longrightarrow>
        1 \<le> snd (snd (ingest_all cfg ts now db (Inr metrics) hlp))
        \<and> rows_at (fst (ingest_all cfg ts now db (Inr metrics) hlp)) ''felix'' ts =
            [\<lparr> snapshot_id = next_id (map snapshot_id (snapshots db)),
               snapshot_protocol_name = ''felix'', timestamp = ts, tvl_usd = None,
               apy_7d = decimal_if (fetched_apy_7d metrics),
               utilization_rate = decimal_if (fetched_utilization_rate metrics) \<rparr>])
   \<and> (rows_at db ''hlp'' ts = [] \<and> fetched_tvl_usd metrics = None \<longrightarrow>
        1 \<le> snd (snd (ingest_all cfg ts now db felix (Inr metrics)))
        \<and> length (rows_at (fst (ingest_all cfg ts now db felix (Inr metrics))) ''hlp'' ts) = 1)"
proof (intro conjI impI)
  assume "rows_at db name ts = []"
  then show "store_snapshot db name ts None apy util =
        (db \<lparr> snapshots := snapshots db @
             [\<lparr> snapshot_id = next_id (map snapshot_id (snapshots db)),
                snapshot_protocol_name = name, timestamp = ts, tvl_usd = None,
                apy_7d = decimal_if apy, utilization_rate = decimal_if util \<rparr>] \<rparr>,
         False)"
    by (simp add: store_snapshot_fresh decimal_if_def)
next
  assume "rows_at db ''felix'' ts = [] \<and> fetched_tvl_usd metrics = None"
  then have f: "rows_at db ''felix'' ts = []" and n: "fetched_tvl_usd metrics = None"
    by simp_all
  have s: "snd (ingest_felix ts db (Inr metrics)) = False"
    by (simp add: ingest_felix_def store_snapshot_fresh [OF f] n)
  show "1 \<le> snd (snd (ingest_all cfg ts now db (Inr metrics) hlp))"
    by (simp add: ingest_all_unfold Let_def count_outcomes_two s del: count_outcomes.simps)
  show "rows_at (fst (ingest_all cfg ts now db (Inr metrics) hlp)) ''felix'' ts =
            [\<lparr> snapshot_id = next_id (map snapshot_id (snapshots db)),
               snapshot_protocol_name = ''felix'', timestamp = ts, tvl_usd = None,
               apy_7d = decimal_if (fetched_apy_7d metrics),
               utilization_rate = decimal_if (fetched_utilization_rate metrics) \<rparr>]"
    by (simp add: rows_at_after_ingest_all rows_at_felix_after_ingest_hlp ingest_felix_def
          rows_at_after_store f n decimal_if_def)
next
  assume "rows_at db ''hlp'' ts = [] \<and> fetched_tvl_usd metrics = None"
  then have h: "rows_at db ''hlp'' ts = []" and n: "fetched_tvl_usd metrics = None"
    by simp_all
  let ?db1 = "fst (ingest_felix ts db felix)"
  have h1: "rows_at ?db1 ''hlp'' ts = []"
    by (simp add: rows_at_hlp_after_ingest_felix h)
  have s: "snd (ingest_hlp ts ?db1 (Inr metrics)) = False"
    by (simp add: ingest_hlp_def store_snapshot_fresh [OF h1] n)
  show "1 \<le> snd (snd (ingest_all cfg ts now db felix (Inr metrics)))"
    by (simp add: ingest_all_unfold Let_def count_outcomes_two s del: count_outcomes.simps)
  show "length (rows_at (fst (ingest_all cfg ts now db felix (Inr metrics))) ''hlp'' ts) = 1"
    by (simp add: rows_at_after_ingest_all ingest_hlp_def rows_at_after_store h1)
qed

text \<open>
  On empty tables: the store of \<^verbatim>\<open>felix\<close> with a null TVL leaves its row and returns
  \<open>False\<close>; the run over such metrics for \<^verbatim>\<open>felix\<close> and complete ones for \<^verbatim>\<open>hlp\<close>
  reports one success and one failure and leaves both rows.
\<close>

theorem store_snapshot_none_tvl_witness:
  "store_snapshot empty_db ''felix'' 1000 None (Some 8) (Some (80 / 100)) =
     (\<lparr> snapshots = [\<lparr> snapshot_id = 1, snapshot_protocol_name = ''felix'', timestamp = 1000,
                        tvl_usd = None, apy_7d = Some 8,
                        utilization_rate = Some (80 / 100) \<rparr>], alerts = [] \<rparr>, False)
   \<and> 1 \<le> snd (snd (ingest_all settings 1000 1000 empty_db
              (Inr \<lparr> fetched_tvl_usd = None, fetched_apy_7d = Some 8,
                     fetched_utilization_rate = Some (80 / 100) \<rparr>)
              (Inr \<lparr> fetched_tvl_usd = Some 520000000, fetched_apy_7d = Some 20,
                     fetched_utilization_rate = None \<rparr>)))
   \<and> snd (ingest_all settings 1000 1000 empty_db
              (Inr \<lparr> fetched_tvl_usd = None, fetched_apy_7d = Some 8,
                     fetched_utilization_rate = Some (80 / 100) \<rparr>)
              (Inr \<lparr> fetched_tvl_usd = Some 520000000, fetched_apy_7d = Some 20,
                     fetched_utilization_rate = None \<rparr>)) = (1, 1)
   \<and> map snapshot_protocol_name (snapshots (fst (ingest_all settings 1000 1000 empty_db
              (Inr \<lparr> fetched_tvl_usd = None, fetched_apy_7d = Some 8,
                     fetched_utilization_rate = Some (80 / 100) \<rparr>)
              (Inr \<lparr> fetched_tvl_usd = Some 520000000, fetched_apy_7d = Some 20,
                     fetched_utilization_rate = None \<rparr>)))) = [''felix'', ''hlp'']"
proof -
  let ?m = "\<lparr> fetched_tvl_usd = None, fetched_apy_7d = Some 8,
               fetched_utilization_rate = Some (80 / 100) \<rparr>"
  let ?h = "Inr \<lparr> fetched_tvl_usd = Some 520000000, fetched_apy_7d = Some 20,
                   fetched_utilization_rate = None \<rparr> :: string + FetchedMetrics"
  have e: "rows_at empty_db ''felix'' 1000 = []"
    by (simp add: rows_at_def empty_db_def)
  have e2: "rows_at empty_db ''felix'' 1000 = [] \<and> fetched_tvl_usd ?m = None"
    using e by simp
  note t = store_snapshot_none_tvl [of empty_db "''felix''" 1000 "Some 8" "Some (80 / 100)"
      ?m settings 1000 ?h]
  have w1: "store_snapshot empty_db ''felix'' 1000 None (Some 8) (Some (80 / 100)) =
     (\<lparr> snapshots = [\<lparr> snapshot_id = 1, snapshot_protocol_name = ''felix'', timestamp = 1000,
                        tvl_usd = None, apy_7d = Some 8,
                        utilization_rate = Some (80 / 100) \<rparr>], alerts = [] \<rparr>, False)"
    using t [THEN conjunct1, THEN mp, OF e]
    by (simp add: empty_db_def decimal_if_def next_id_def)
  have w2: "1 \<le> snd (snd (ingest_all settings 1000 1000 empty_db (Inr ?m) ?h))"
    by (rule t [THEN conjunct2, THEN conjunct1, THEN mp, OF e2, THEN conjunct1])
  have w3: "snd (ingest_all settings 1000 1000 empty_db (Inr ?m) ?h) = (1, 1)"
    by (simp add: ingest_all_def ingest_felix_def ingest_hlp_def store_snapshot_def
          store_snapshot_try_def empty_db_def decimal_if_def next_id_def Let_def)
  have w4: "map snapshot_protocol_name
      (snapshots (fst (ingest_all settings 1000 1000 empty_db (Inr ?m) ?h)))
      = [''felix'', ''hlp'']"
    by (simp add: ingest_all_unfold Let_def detect_all_snapshots)
       (simp add: ingest_felix_def ingest_hlp_def store_snapshot_def
          store_snapshot_try_def empty_db_def decimal_if_def next_id_def Let_def)
  from w1 w2 w3 w4 show ?thesis by (intro conjI)
qed

section \<open>Zero and null\<close>


















section \<open>Bounded retry of the TVL fetch\<close>

lemma fetch_tvl_loop_transient:
  "transient (client attempt) \<Longrightarrow>
     fetch_tvl_loop max_retries retry_delay client (attempt # attempts) trace =
       (if int attempt < max_retries - 1
        then fetch_tvl_loop max_retries retry_delay client attempts
               (trace @ [Request attempt, Sleep (retry_delay * (of_nat attempt + 1))])
        else fetch_tvl_loop max_retries retry_delay client attempts
               (trace @ [Request attempt]))"
  by (auto simp: transient_def split: http_result.splits)

lemma fetch_tvl_loop_permanent:
  "permanent_failure (client attempt) \<Longrightarrow>
     fetch_tvl_loop max_retries retry_delay client (attempt # attempts) trace =
       (None, trace @ [Request attempt])"
  by (auto simp: permanent_failure_def split: http_result.splits)

lemma fetch_tvl_loop_success:
  "client attempt = Response 200 (Some tvl) \<Longrightarrow>
     fetch_tvl_loop max_retries retry_delay client (attempt # attempts) trace =
       (Some tvl, trace @ [Request attempt])"
  by simp

lemma backoff_step: "j \<le> k \<Longrightarrow>
  backoff d j (Suc k) = backoff d j k @ [Request k, Sleep (d * (of_nat k + 1))]"
  by (simp add: backoff_def)

lemma fetch_tvl_loop_prefix:
  assumes "\<forall>i<k. transient (client i)" "k < n"
  shows "fetch_tvl_loop (int n) d client [0..<n] []
           = fetch_tvl_loop (int n) d client [k..<n] (backoff d 0 k)"
  using assms
proof (induction k)
  case 0
  show ?case by (simp add: backoff_def)
next
  case (Suc k)
  then have ih: "fetch_tvl_loop (int n) d client [0..<n] []
           = fetch_tvl_loop (int n) d client [k..<n] (backoff d 0 k)"
    by simp
  from Suc.prems have k: "k < n" "Suc k < n" "transient (client k)" by simp_all
  from k have "[k..<n] = k # [Suc k..<n]" by (simp add: upt_conv_Cons)
  moreover from k have "int k < int n - 1" by simp
  ultimately show ?case
    using k by (simp add: ih fetch_tvl_loop_transient backoff_step del: fetch_tvl_loop.simps)
qed

lemma fetch_tvl_loop_requests:
  "length (filter is_request (snd (fetch_tvl_loop m d client xs tr)))
     \<le> length (filter is_request tr) + length xs"
proof (induction xs arbitrary: tr)
  case Nil
  show ?case by simp
next
  case (Cons x xs)
  have a: "length (filter is_request (snd (fetch_tvl_loop m d client xs
             (tr @ [Request x, Sleep (d * (of_nat x + 1))]))))
           \<le> length (filter is_request tr) + 1 + length xs"
    using Cons.IH [of "tr @ [Request x, Sleep (d * (of_nat x + 1))]"] by simp
  have b: "length (filter is_request (snd (fetch_tvl_loop m d client xs (tr @ [Request x]))))
           \<le> length (filter is_request tr) + 1 + length xs"
    using Cons.IH [of "tr @ [Request x]"] by simp
  show ?case
    using a b by (auto split: http_result.splits option.splits)
qed

lemma fetch_tvl_at:
  assumes "k < nat (API_RETRY_ATTEMPTS cfg)" "\<forall>i<k. transient (client i)"
  shows "fetch_tvl cfg client =
           fetch_tvl_loop (API_RETRY_ATTEMPTS cfg) (API_RETRY_DELAY_SECONDS cfg) client
             (k # [Suc k..<nat (API_RETRY_ATTEMPTS cfg)])
             (backoff (API_RETRY_DELAY_SECONDS cfg) 0 k)"
proof -
  let ?n = "nat (API_RETRY_ATTEMPTS cfg)"
  from assms(1) have m: "API_RETRY_ATTEMPTS cfg = int ?n" by simp
  have "fetch_tvl_loop (int ?n) (API_RETRY_DELAY_SECONDS cfg) client [0..<?n] []
          = fetch_tvl_loop (int ?n) (API_RETRY_DELAY_SECONDS cfg) client [k..<?n]
              (backoff (API_RETRY_DELAY_SECONDS cfg) 0 k)"
    by (rule fetch_tvl_loop_prefix [OF assms(2,1)])
  moreover from assms(1) have "[k..<?n] = k # [Suc k..<?n]" by (simp add: upt_conv_Cons)
  ultimately show ?thesis
    unfolding fetch_tvl_def using m by simp
qed

text \<open>
  Claim C8. A TVL fetch makes at most the configured number of requests (3 by
  default) and always returns.
  \<^item> When the first attempts fail transiently (a status of 500 or more, a timeout) and
    the next one, within the bound, ends in a 404 response or in a 200 response with a
    malformed payload, the fetch returns a failure right after that request: no
    further request, no further sleep.
  \<^item> Each transient failure that is not the last attempt is followed by a sleep of the
    base delay times the number of the attempt (counted from 1), then by the next
    request; a 200 response with a number ends the fetch with that number.
  \<^item> When every attempt within the bound fails transiently, the fetch returns a
    failure after the last one, without sleeping again.
\<close>

theorem fetch_tvl_bounded_retry:
  "length (filter is_request (snd (fetch_tvl cfg client))) \<le> nat (API_RETRY_ATTEMPTS cfg)
   \<and> (\<forall>k. k < nat (API_RETRY_ATTEMPTS cfg) \<and> (\<forall>i<k. transient (client i))
            \<and> permanent_failure (client k)
        \<longrightarrow> fetch_tvl cfg client
              = (None, backoff (API_RETRY_DELAY_SECONDS cfg) 0 k @ [Request k]))
   \<and> (\<forall>k tvl. k < nat (API_RETRY_ATTEMPTS cfg) \<and> (\<forall>i<k. transient (client i))
            \<and> client k = Response 200 (Some tvl)
        \<longrightarrow> fetch_tvl cfg client
              = (Some tvl, backoff (API_RETRY_DELAY_SECONDS cfg) 0 k @ [Request k]))
   \<and> ((\<forall>i<nat (API_RETRY_ATTEMPTS cfg). transient (client i))
        \<longrightarrow> fetch_tvl cfg client
              = (None, if API_RETRY_ATTEMPTS cfg \<le> 0 then []
                       else backoff (API_RETRY_DELAY_SECONDS cfg) 0
                              (nat (API_RETRY_ATTEMPTS cfg) - 1)
                            @ [Request (nat (API_RETRY_ATTEMPTS cfg) - 1)]))
   \<and> API_RETRY_ATTEMPTS settings = 3 \<and> API_RETRY_DELAY_SECONDS settings = 1"
proof (intro conjI allI impI)
  show "length (filter is_request (snd (fetch_tvl cfg client))) \<le> nat (API_RETRY_ATTEMPTS cfg)"
    using fetch_tvl_loop_requests [of "API_RETRY_ATTEMPTS cfg" "API_RETRY_DELAY_SECONDS cfg"
        client "[0..<nat (API_RETRY_ATTEMPTS cfg)]" "[]"]
    by (simp add: fetch_tvl_def)
next
  fix k
  assume "k < nat (API_RETRY_ATTEMPTS cfg) \<and> (\<forall>i<k. transient (client i))
            \<and> permanent_failure (client k)"
  then have 1: "k < nat (API_RETRY_ATTEMPTS cfg)" and 2: "\<forall>i<k. transient (client i)"
    and 3: "permanent_failure (client k)" by simp_all
  show "fetch_tvl cfg client
      = (None, backoff (API_RETRY_DELAY_SECONDS cfg) 0 k @ [Request k])"
    unfolding fetch_tvl_at [OF 1 2] by (rule fetch_tvl_loop_permanent) (rule 3)
next
  fix k tvl
  assume "k < nat (API_RETRY_ATTEMPTS cfg) \<and> (\<forall>i<k. transient (client i))
            \<and> client k = Response 200 (Some tvl)"
  then have 1: "k < nat (API_RETRY_ATTEMPTS cfg)" and 2: "\<forall>i<k. transient (client i)"
    and 3: "client k = Response 200 (Some tvl)" by simp_all
  show "fetch_tvl cfg client
      = (Some tvl, backoff (API_RETRY_DELAY_SECONDS cfg) 0 k @ [Request k])"
    unfolding fetch_tvl_at [OF 1 2] by (rule fetch_tvl_loop_success) (rule 3)
next
  let ?n = "nat (API_RETRY_ATTEMPTS cfg)"
  assume a: "\<forall>i<?n. transient (client i)"
  show "fetch_tvl cfg client
      = (None, if API_RETRY_ATTEMPTS cfg \<le> 0 then []
               else backoff (API_RETRY_DELAY_SECONDS cfg) 0 (?n - 1) @ [Request (?n - 1)])"
  proof (cases "API_RETRY_ATTEMPTS cfg \<le> 0")
    case True
    then show ?thesis by (simp add: fetch_tvl_def)
  next
    case False
    then have k: "?n - 1 < ?n" by simp
    from a k have p: "\<forall>i<?n - 1. transient (client i)" by simp
    from a k have t: "transient (client (?n - 1))" by blast
    from False have s: "[Suc (?n - 1)..<?n] = []" by simp
    from False have l: "\<not> int (?n - 1) < API_RETRY_ATTEMPTS cfg - 1" by simp
    have e1: "fetch_tvl cfg client =
        fetch_tvl_loop (API_RETRY_ATTEMPTS cfg) (API_RETRY_DELAY_SECONDS cfg) client [?n - 1]
          (backoff (API_RETRY_DELAY_SECONDS cfg) 0 (?n - 1))"
      by (simp only: fetch_tvl_at [OF k p] s)
    have e2: "fetch_tvl_loop (API_RETRY_ATTEMPTS cfg) (API_RETRY_DELAY_SECONDS cfg) client
          [?n - 1] (backoff (API_RETRY_DELAY_SECONDS cfg) 0 (?n - 1))
        = fetch_tvl_loop (API_RETRY_ATTEMPTS cfg) (API_RETRY_DELAY_SECONDS cfg) client []
            (backoff (API_RETRY_DELAY_SECONDS cfg) 0 (?n - 1) @ [Request (?n - 1)])"
      by (simp only: fetch_tvl_loop_transient [of client "?n - 1", OF t] l if_False)
    show ?thesis
      by (simp only: e1 e2 fetch_tvl_loop.simps(1) False if_False)
  qed
next
  show "API_RETRY_ATTEMPTS settings = 3" "API_RETRY_DELAY_SECONDS settings = 1"
    by (simp_all add: settings_def)
qed

text \<open>
  With the default settings: a server that always answers 503 is asked three times,
  with sleeps of 1 and 2 seconds in between; a timeout followed by a 404 ends the fetch
  at the second request.
\<close>

theorem fetch_tvl_bounded_retry_witness:
  "fetch_tvl settings always_503
     = (None, [Request 0, Sleep 1, Request 1, Sleep 2, Request 2])
   \<and> fetch_tvl settings timeout_then_404 = (None, [Request 0, Sleep 1, Request 1])
   \<and> length (filter is_request (snd (fetch_tvl settings always_503))) \<le> 3"
proof -
  have n: "nat (API_RETRY_ATTEMPTS settings) = 3" "API_RETRY_DELAY_SECONDS settings = 1"
    "\<not> API_RETRY_ATTEMPTS settings \<le> 0"
    by (simp_all add: settings_def)
  have a: "\<forall>i<nat (API_RETRY_ATTEMPTS settings). transient (always_503 i)"
    by (simp add: always_503_def transient_def)
  have b: "Suc 0 < nat (API_RETRY_ATTEMPTS settings)
           \<and> (\<forall>i<Suc 0. transient (timeout_then_404 i))
           \<and> permanent_failure (timeout_then_404 (Suc 0))"
    by (simp add: n timeout_then_404_def transient_def permanent_failure_def)
  have bo: "backoff 1 0 2 = [Request 0, Sleep 1, Request 1, Sleep 2]"
    "backoff 1 0 (Suc 0) = [Request 0, Sleep 1]"
    by (simp_all add: backoff_def upt_rec)
  have w1: "fetch_tvl settings always_503
     = (None, [Request 0, Sleep 1, Request 1, Sleep 2, Request 2])"
    using fetch_tvl_bounded_retry [of settings always_503, THEN conjunct2, THEN conjunct2,
        THEN conjunct2, THEN conjunct1, THEN mp, OF a]
    by (simp add: n bo)
  have w2: "fetch_tvl settings timeout_then_404 = (None, [Request 0, Sleep 1, Request 1])"
    using fetch_tvl_bounded_retry [of settings timeout_then_404, THEN conjunct2,
        THEN conjunct1, THEN spec, THEN mp, OF b]
    by (simp add: n bo)
  have w3: "length (filter is_request (snd (fetch_tvl settings always_503))) \<le> 3"
    using fetch_tvl_bounded_retry [of settings always_503, THEN conjunct1]
    by (simp add: n)
  from w1 w2 w3 show ?thesis by (intro conjI)
qed

section \<open>Alert resolution is the only change of an alert\<close>

text \<open>
  Claim C4. Resolving an alert by its id: when no row has the id, the request is
  rejected with status 404 and the tables are unchanged; when the row is already
  resolved, it is rejected with status 400 and the tables (so its \<^verbatim>\<open>resolved_at\<close>) are
  unchanged; otherwise the row gets \<^verbatim>\<open>resolved_at = now\<close>, every other field and every
  other row stay as they were, the snapshot table is untouched, and a second request
  for the same id, at any later instant, is rejected with status 400 and changes
  nothing. On a table whose ids are distinct, a resolved row is never changed by a
  resolution request, whatever id is asked for. No other operation touches an alert
  row: a detection pass only appends the alerts it returns, and a store leaves the
  alert table as it is.
\<close>

theorem resolve_alert_transition:
  "(find (\<lambda>a. alert_id a = aid) (alerts db) = None
      \<longrightarrow> resolve_alert now db aid = (db, Inl (HTTPException 404 ''Alert not found'')))
   \<and> (\<forall>alert t. find (\<lambda>a. alert_id a = aid) (alerts db) = Some alert
          \<and> resolved_at alert = Some t
      \<longrightarrow> resolve_alert now db aid = (db, Inl (HTTPException 400 ''Alert already resolved'')))
   \<and> (\<forall>alert. find (\<lambda>a. alert_id a = aid) (alerts db) = Some alert
          \<and> resolved_at alert = None
      \<longrightarrow> (let db' = fst (resolve_alert now db aid) in
             find (\<lambda>a. alert_id a = aid) (alerts db') = Some (alert \<lparr> resolved_at := Some now \<rparr>)
           \<and> snd (resolve_alert now db aid) = AlertResponse (alert \<lparr> resolved_at := Some now \<rparr>)
           \<and> snapshots db' = snapshots db
           \<and> length (alerts db') = length (alerts db)
           \<and> (\<forall>i<length (alerts db). alerts db' ! i =
                 (if alert_id (alerts db ! i) = aid
                  then (alerts db ! i) \<lparr> resolved_at := Some now \<rparr> else alerts db ! i))
           \<and> resolve_alert later db' aid
                = (db', Inl (HTTPException 400 ''Alert already resolved''))))
   \<and> (alert_ids_distinct db \<longrightarrow> alert_ids_distinct (fst (resolve_alert now db aid))
        \<and> (\<forall>a\<in>set (alerts db). resolved_at a \<noteq> None
              \<longrightarrow> a \<in> set (alerts (fst (resolve_alert now db aid)))))
   \<and> alerts (fst (detect_all cfg later db)) = alerts db @ snd (detect_all cfg later db)
   \<and> alerts (fst (store_snapshot db name ts tvl apy util)) = alerts db"
proof (intro conjI allI impI ballI, goal_cases)
  case 1
  then show ?case by (rule resolve_alert_not_found)
next
  case (2 alert t)
  then show ?case by (auto intro: resolve_alert_conflict)
next
  case (3 alert)
  then have f: "find (\<lambda>a. alert_id a = aid) (alerts db) = Some alert"
    and r: "resolved_at alert = None" by simp_all
  have after: "find (\<lambda>a. alert_id a = aid) (alerts (fst (resolve_alert now db aid)))
                = Some (alert \<lparr> resolved_at := Some now \<rparr>)"
    by (rule resolve_alert_find_after [OF f r])
  have again: "resolve_alert later (fst (resolve_alert now db aid)) aid
      = (fst (resolve_alert now db aid), Inl (HTTPException 400 ''Alert already resolved''))"
    by (rule resolve_alert_conflict [OF after]) simp
  show ?case
    unfolding Let_def using after again
    by (simp add: resolve_alert_open [OF f r])
next
  case 4
  then show ?case by (rule resolve_alert_ids_distinct)
next
  case (5 a)
  then show ?case by (auto intro: resolve_alert_keeps_resolved)
next
  case 6
  show ?case by (rule detect_all_alerts)
next
  case 7
  show ?case by (rule alerts_after_store)
qed

text \<open>
  On the example table: id 7 does not exist, id 3 is already resolved, id 1 is open and
  is resolved at instant 500; resolving it again at 600 is rejected; the resolved row
  of id 3 is still there.
\<close>

theorem resolve_alert_transition_witness:
  "resolve_alert 500 status_db_mixed 7 = (status_db_mixed, Inl (HTTPException 404 ''Alert not found''))
   \<and> resolve_alert 500 status_db_mixed 3
       = (status_db_mixed, Inl (HTTPException 400 ''Alert already resolved''))
   \<and> find (\<lambda>a. alert_id a = 1) (alerts status_db_mixed) = Some (alerts status_db_mixed ! 0)
   \<and> resolved_at (alerts status_db_mixed ! 0) = None
   \<and> find (\<lambda>a. alert_id a = 1) (alerts (fst (resolve_alert 500 status_db_mixed 1)))
       = Some ((alerts status_db_mixed ! 0) \<lparr> resolved_at := Some 500 \<rparr>)
   \<and> resolve_alert 600 (fst (resolve_alert 500 status_db_mixed 1)) 1
       = (fst (resolve_alert 500 status_db_mixed 1),
          Inl (HTTPException 400 ''Alert already resolved''))
   \<and> alert_ids_distinct status_db_mixed
   \<and> alerts status_db_mixed ! 2 \<in> set (alerts (fst (resolve_alert 500 status_db_mixed 1)))"
proof -
  have n: "find (\<lambda>a. alert_id a = 7) (alerts status_db_mixed) = None"
    by (simp add: status_db_mixed_def)
  have c: "find (\<lambda>a. alert_id a = 3) (alerts status_db_mixed) = Some (alerts status_db_mixed ! 2)
           \<and> resolved_at (alerts status_db_mixed ! 2) = Some 300"
    by (simp add: status_db_mixed_def)
  have p: "find (\<lambda>a. alert_id a = 1) (alerts status_db_mixed) = Some (alerts status_db_mixed ! 0)
           \<and> resolved_at (alerts status_db_mixed ! 0) = None"
    by (simp add: status_db_mixed_def)
  have d: "alert_ids_distinct status_db_mixed"
    by (simp add: status_db_mixed_def alert_ids_distinct_def)
  have m: "alerts status_db_mixed ! 2 \<in> set (alerts status_db_mixed)
           \<and> resolved_at (alerts status_db_mixed ! 2) \<noteq> None"
    by (simp add: status_db_mixed_def)
  note t7 = resolve_alert_transition [of 7 status_db_mixed 500 600, THEN conjunct1, rule_format, OF n]
  note t3 = resolve_alert_transition [of 3 status_db_mixed 500 600, THEN conjunct2,
      THEN conjunct1, rule_format, OF c]
  note t1 = resolve_alert_transition [of 1 status_db_mixed 500 600, THEN conjunct2,
      THEN conjunct2, THEN conjunct1, rule_format, OF p, unfolded Let_def]
  note t2 = resolve_alert_transition [of 1 status_db_mixed 500 600, THEN conjunct2,
      THEN conjunct2, THEN conjunct2, THEN conjunct1, rule_format, OF d, THEN conjunct2,
      rule_format, OF conjunct1 [OF m] conjunct2 [OF m]]
  show ?thesis
    by (intro conjI t7 t3 conjunct1 [OF p] conjunct2 [OF p] conjunct1 [OF t1]
          t2 d) (rule t1 [THEN conjunct2, THEN conjunct2, THEN conjunct2, THEN conjunct2,
          THEN conjunct2])
qed

end
